(* ===== verification/Prelude.thy ===== *)
theory Prelude
  imports Main "HOL-Library.Sublist"
begin

text \<open>
  What every theory of the development shares: the exceptions of the C++ code and the
  outcome of a computation that may throw, the text routines of the standard library that
  the program calls (character classes, \<open>std::to_string\<close>, \<open>std::stoi\<close>, \<open>std::stoul\<close>,
  splitting on white space), and the list lemmas the component proofs use.
  Strings are byte strings, as \<open>std::string\<close> is: a \<open>char\<close> of HOL is one byte.
  Clock readings (\<open>steady_clock::now()\<close>) are arguments, integers in milliseconds.
\<close>

named_theorems model_simps \<open>defining equations of small model operations\<close>

section \<open>Exceptions and outcomes\<close>

text \<open>
  The exceptions the code throws or catches, by the classes its handlers tell apart:
  \<open>json::parse_error\<close>, the other exceptions of the JSON library (\<open>json::type_error\<close>),
  \<open>beast::system_error\<close> of the connection, \<open>std::runtime_error\<close>, the two that
  \<open>std::stoi\<close> and \<open>std::stoul\<close> throw, and \<open>std::bad_alloc\<close>. All of them derive from \<open>std::exception\<close>.
\<close>

datatype exn =
    Parse_Error
  | Type_Error
  | System_Error
  | Runtime_Error string
  | Invalid_Argument
  | Out_Of_Range
  | Bad_Alloc

type_synonym 'a result = "exn + 'a"

definition is_ok :: "'a result \<Rightarrow> bool" where
  "is_ok r = (case r of Inl _ \<Rightarrow> False | Inr _ \<Rightarrow> True)"

lemma is_ok_simps [simp]: "\<not> is_ok (Inl e)" "is_ok (Inr x)"
  by (simp_all add: is_ok_def)

definition bind_result :: "'a result \<Rightarrow> ('a \<Rightarrow> 'b result) \<Rightarrow> 'b result" where
  "bind_result r f = (case r of Inl e \<Rightarrow> Inl e | Inr x \<Rightarrow> f x)"

lemma bind_result_simps [simp]:
  "bind_result (Inl e) f = Inl e"
  "bind_result (Inr x) f = f x"
  by (simp_all add: bind_result_def)

lemma bind_result_eq_Inr:
  "bind_result r f = Inr y \<longleftrightarrow> (\<exists>x. r = Inr x \<and> f x = Inr y)"
  by (cases r) simp_all

section \<open>Lists\<close>

text \<open>The last \<open>n\<close> elements of a list (all of it when it is shorter).\<close>

definition keep_last :: "nat \<Rightarrow> 'a list \<Rightarrow> 'a list" where
  "keep_last n xs = drop (length xs - n) xs"

lemma length_keep_last [simp]: "length (keep_last n xs) = min n (length xs)"
  by (auto simp: keep_last_def)

lemma keep_last_all [simp]: "length xs \<le> n \<Longrightarrow> keep_last n xs = xs"
  by (simp add: keep_last_def)

lemma keep_last_append_right:
  "n \<le> length ys \<Longrightarrow> keep_last n (xs @ ys) = keep_last n ys"
  by (simp add: keep_last_def)

lemma keep_last_append_left:
  "length ys \<le> n \<Longrightarrow> keep_last n (xs @ ys) = keep_last (n - length ys) xs @ ys"
  by (simp add: keep_last_def algebra_simps)

lemma suffix_keep_last: "suffix (keep_last n xs) xs"
  by (simp add: keep_last_def suffix_drop)

lemma set_keep_last: "set (keep_last n xs) \<subseteq> set xs"
  by (simp add: keep_last_def set_drop_subset)

lemma sum_list_update_nat:
  fixes f :: "'a \<Rightarrow> nat"
  assumes "finite A" and "a \<in> A"
  shows "sum (f(a := v)) A + f a = sum f A + v"
proof -
  from assms have A: "A = insert a (A - {a})" by blast
  have "sum (f(a := v)) A = v + sum (f(a := v)) (A - {a})"
    using assms by (subst A, subst sum.insert) simp_all
  moreover have "sum (f(a := v)) (A - {a}) = sum f (A - {a})"
    by (rule sum.cong) auto
  moreover have "sum f A = f a + sum f (A - {a})"
    using assms by (subst A, subst sum.insert) simp_all
  ultimately show ?thesis by simp
qed

section \<open>Text\<close>

text \<open>\<open>std::isspace\<close> in the C locale, on one byte.\<close>

definition isspace :: "char \<Rightarrow> bool" where
  "isspace c = (c = CHR '' '' \<or> (9 \<le> (of_char c :: nat) \<and> (of_char c :: nat) \<le> 13))"

definition isdigit :: "char \<Rightarrow> bool" where
  "isdigit c = (48 \<le> (of_char c :: nat) \<and> (of_char c :: nat) \<le> 57)"

definition digit_val :: "char \<Rightarrow> nat" where
  "digit_val c = (of_char c :: nat) - 48"

definition digit_char :: "nat \<Rightarrow> char" where
  "digit_char d = char_of (48 + d)"

lemma digit_char_props [simp]:
  assumes "d < 10"
  shows "isdigit (digit_char d)" "digit_val (digit_char d) = d"
    "digit_char d \<noteq> CHR ''-''" "digit_char d \<noteq> CHR ''+''" "\<not> isspace (digit_char d)"
proof -
  have n: "of_char (digit_char d) = 48 + d"
    using assms by (simp add: digit_char_def)
  show "isdigit (digit_char d)" and "digit_val (digit_char d) = d"
    using n assms by (simp_all add: isdigit_def digit_val_def)
  show "digit_char d \<noteq> CHR ''-''" and "digit_char d \<noteq> CHR ''+''"
    using n by auto
  show "\<not> isspace (digit_char d)"
    using n by (auto simp: isspace_def)
qed

text \<open>\<open>std::to_string\<close> on unsigned and on signed integers: decimal digits, no padding.\<close>

fun to_string_nat :: "nat \<Rightarrow> string" where
  "to_string_nat n =
     (if n < 10 then [digit_char n] else to_string_nat (n div 10) @ [digit_char (n mod 10)])"

declare to_string_nat.simps [simp del]

definition to_string_int :: "int \<Rightarrow> string" where
  "to_string_int i = (if i < 0 then CHR ''-'' # to_string_nat (nat (- i)) else to_string_nat (nat i))"

text \<open>Filled up with zeros on the left, as by \<open>std::setw\<close> and \<open>std::setfill('0')\<close>.\<close>

definition pad_left :: "nat \<Rightarrow> string \<Rightarrow> string" where
  "pad_left n s = replicate (n - length s) CHR ''0'' @ s"

text \<open>The value of a run of decimal digits, most significant first.\<close>

definition digits_val :: "string \<Rightarrow> nat" where
  "digits_val ds = foldl (\<lambda>v c. 10 * v + digit_val c) 0 ds"

lemma digits_val_snoc: "digits_val (ds @ [c]) = 10 * digits_val ds + digit_val c"
  by (simp add: digits_val_def)

lemma to_string_nat_digits:
  "to_string_nat n \<noteq> [] \<and> list_all isdigit (to_string_nat n) \<and> digits_val (to_string_nat n) = n"
proof (induction n rule: to_string_nat.induct)
  case (1 n)
  show ?case
  proof (cases "n < 10")
    case True
    then show ?thesis by (simp add: to_string_nat.simps [of n] digits_val_def)
  next
    case False
    with 1 show ?thesis
      by (simp add: to_string_nat.simps [of n] digits_val_snoc)
  qed
qed

text \<open>
  \<open>strtol\<close> and \<open>strtoul\<close> in base 10: white space is skipped, one sign is read, then the
  longest run of digits; what follows is ignored. \<open>None\<close> stands for "no conversion".
\<close>

definition scan_int :: "string \<Rightarrow> (bool \<times> nat) option" where
  "scan_int s =
     (let t = dropWhile isspace s;
          neg = (case t of c # _ \<Rightarrow> c = CHR ''-'' | [] \<Rightarrow> False);
          u = (case t of c # r \<Rightarrow> if c = CHR ''-'' \<or> c = CHR ''+'' then r else t | [] \<Rightarrow> []);
          ds = takeWhile isdigit u
      in if ds = [] then None else Some (neg, digits_val ds))"

text \<open>\<open>std::stoi\<close>: \<open>strtol\<close> (64 bits), then the range check of \<open>int\<close> (32 bits).\<close>

definition stoi :: "string \<Rightarrow> int result" where
  "stoi s = (case scan_int s of
       None \<Rightarrow> Inl Invalid_Argument
     | Some (neg, n) \<Rightarrow>
         let v = (if neg then - int n else int n)
         in if v < - (2 ^ 31) \<or> 2 ^ 31 \<le> v then Inl Out_Of_Range else Inr v)"

text \<open>
  \<open>std::stoul\<close>: \<open>strtoul\<close> accepts a minus sign and negates the value modulo \<open>2^64\<close>;
  a magnitude of \<open>2^64\<close> or more is out of range.
\<close>

definition stoul :: "string \<Rightarrow> nat result" where
  "stoul s = (case scan_int s of
       None \<Rightarrow> Inl Invalid_Argument
     | Some (neg, n) \<Rightarrow>
         if 2 ^ 64 \<le> n then Inl Out_Of_Range
         else Inr (if neg then (2 ^ 64 - n) mod 2 ^ 64 else n))"

lemma scan_int_to_string_nat: "scan_int (to_string_nat n) = Some (False, n)"
proof -
  obtain c r where s: "to_string_nat n = c # r"
    using to_string_nat_digits [of n] by (cases "to_string_nat n") auto
  have dg: "list_all isdigit (c # r)" "digits_val (c # r) = n"
    using to_string_nat_digits [of n] s by simp_all
  have tw: "takeWhile isdigit (c # r) = c # r"
    using dg(1) by (simp only: takeWhile_eq_all_conv list_all_iff)
  have "\<not> isspace c" "c \<noteq> CHR ''-''" "c \<noteq> CHR ''+''"
    using dg(1) by (auto simp: isdigit_def isspace_def)
  with s tw dg(2) show ?thesis by (simp add: scan_int_def Let_def)
qed

lemma stoul_to_string: "n < 2 ^ 64 \<Longrightarrow> stoul (to_string_nat n) = Inr n"
  by (simp add: stoul_def scan_int_to_string_nat)

lemma scan_int_minus: "scan_int (CHR ''-'' # to_string_nat n) = Some (True, n)"
proof -
  have tw: "takeWhile isdigit (to_string_nat n) = to_string_nat n"
    using to_string_nat_digits [of n] by (simp only: takeWhile_eq_all_conv list_all_iff) blast
  have "\<not> isspace CHR ''-''" by (simp add: isspace_def)
  then show ?thesis
    using to_string_nat_digits [of n]
    by (simp add: scan_int_def Let_def tw del: takeWhile_eq_all_conv takeWhile_eq_Nil_iff)
qed

lemma stoi_to_string: "- (2 ^ 31) \<le> i \<Longrightarrow> i < 2 ^ 31 \<Longrightarrow> stoi (to_string_int i) = Inr i"
  by (auto simp: stoi_def to_string_int_def scan_int_to_string_nat scan_int_minus)

lemma stoi_bounds: "stoi s = Inr v \<Longrightarrow> - (2 ^ 31) \<le> v \<and> v < 2 ^ 31"
  by (auto simp: stoi_def Let_def split: option.splits prod.splits if_splits)

lemma stoul_bounds: "stoul s = Inr v \<Longrightarrow> v < 2 ^ 64"
  by (auto simp: stoul_def split: option.splits prod.splits if_splits)

text \<open>
  The words \<open>istringstream >> word\<close> reads one after the other: maximal runs of characters
  that are not white space.
\<close>

function words :: "string \<Rightarrow> string list" where
  "words s = (let t = dropWhile isspace s in
     if t = [] then []
     else takeWhile (\<lambda>c. \<not> isspace c) t # words (dropWhile (\<lambda>c. \<not> isspace c) t))"
  by pat_completeness auto
termination
proof (relation "measure length", simp)
  fix s t :: string
  assume t: "t = dropWhile isspace s" and ne: "t \<noteq> []"
  then have "\<not> isspace (hd t)" by (simp add: hd_dropWhile)
  with ne have "length (dropWhile (\<lambda>c. \<not> isspace c) t) < length t"
    by (cases t) (auto simp: less_Suc_eq_le length_dropWhile_le)
  also have "\<dots> \<le> length s" by (simp add: t length_dropWhile_le)
  finally show "(dropWhile (\<lambda>c. \<not> isspace c) t, s) \<in> measure length" by simp
qed

declare words.simps [simp del]

lemma words_nonempty_nonspace:
  "w \<in> set (words s) \<Longrightarrow> w \<noteq> [] \<and> (\<forall>c \<in> set w. \<not> isspace c)"
proof (induction s rule: words.induct)
  case (1 s)
  define t where "t = dropWhile isspace s"
  show ?case
  proof (cases "t = []")
    case True
    with 1 show ?thesis by (simp add: words.simps [of s] t_def)
  next
    case False
    then have h: "\<not> isspace (hd t)" by (simp add: t_def hd_dropWhile)
    have "words s = takeWhile (\<lambda>c. \<not> isspace c) t # words (dropWhile (\<lambda>c. \<not> isspace c) t)"
      using False by (subst words.simps) (simp add: t_def [symmetric] del: dropWhile_eq_Nil_conv)
    with "1.prems" consider "w = takeWhile (\<lambda>c. \<not> isspace c) t"
      | "w \<in> set (words (dropWhile (\<lambda>c. \<not> isspace c) t))"
      by auto
    then show ?thesis
    proof cases
      case 1
      with False h show ?thesis by (cases t) (auto dest: set_takeWhileD)
    next
      case 2
      show ?thesis by (rule "1.IH" [OF t_def False 2])
    qed
  qed
qed

section \<open>Totals over a map\<close>

text \<open>
  Clients of a shared counter: \<open>total_of h M\<close> adds up what the entries of \<open>M\<close> hold. References
  to the model, inference slots and connection slots are all counted this way.
\<close>

definition total_of :: "('a \<Rightarrow> nat) \<Rightarrow> (nat \<Rightarrow> 'a option) \<Rightarrow> nat" where
  "total_of h M = (\<Sum>i\<in>dom M. h (the (M i)))"

lemma total_of_empty [simp]: "total_of h (\<lambda>_. None) = 0"
  by (simp add: total_of_def)

lemma total_of_remove:
  assumes "finite (dom M)" and "M i = Some a"
  shows "total_of h (M(i := None)) + h a = total_of h M"
proof -
  have "total_of h M = h (the (M i)) + (\<Sum>j\<in>dom M - {i}. h (the (M j)))"
    unfolding total_of_def using assms by (intro sum.remove) auto
  moreover have "(\<Sum>j\<in>dom M - {i}. h (the (M j))) = total_of h (M(i := None))"
    unfolding total_of_def by (rule sum.cong) auto
  ultimately show ?thesis using assms(2) by simp
qed

lemma total_of_insert:
  assumes "finite (dom M)" and "M i = None"
  shows "total_of h (M(i \<mapsto> b)) = total_of h M + h b"
proof -
  have "(M(i \<mapsto> b))(i := None) = M" using assms(2) by auto
  then show ?thesis using total_of_remove [of "M(i \<mapsto> b)" i b h] assms(1) by simp
qed

lemma total_of_update:
  assumes "finite (dom M)" and "M i = Some a"
  shows "total_of h (M(i \<mapsto> b)) + h a = total_of h M + h b"
proof -
  have "total_of h ((M(i := None))(i \<mapsto> b)) = total_of h (M(i := None)) + h b"
    by (rule total_of_insert) (use assms(1) in auto)
  then show ?thesis using total_of_remove [OF assms, of h] by simp
qed

lemma total_of_member: "finite (dom M) \<Longrightarrow> M i = Some a \<Longrightarrow> h a \<le> total_of h M"
  using total_of_remove [of M i a h] by simp

lemma total_of_two:
  assumes "finite (dom M)" and "M i = Some a" and "M j = Some b" and "i \<noteq> j"
  shows "h a + h b \<le> total_of h M"
  using total_of_member [of "M(i := None)" j b h] total_of_remove [OF assms(1,2), of h] assms by simp

lemma total_of_card:
  assumes "finite (dom M)"
  shows "total_of (\<lambda>a. of_bool (P a)) M = card {i. \<exists>a. M i = Some a \<and> P a}"
proof -
  have "total_of (\<lambda>a. of_bool (P a)) M = (\<Sum>i\<in>dom M. if P (the (M i)) then 1 else 0)"
    unfolding total_of_def by (rule sum.cong) auto
  also have "\<dots> = card {i \<in> dom M. P (the (M i))}"
    using assms by (simp add: sum.If_cases Int_def)
  also have "{i \<in> dom M. P (the (M i))} = {i. \<exists>a. M i = Some a \<and> P a}" by auto
  finally show ?thesis .
qed

lemma total_of_cong: "(\<And>i a. M i = Some a \<Longrightarrow> h a = k a) \<Longrightarrow> total_of h M = total_of k M"
  unfolding total_of_def by (rule sum.cong) auto

section \<open>Invariants of step relations\<close>

text \<open>
  The contract between a step relation and a property of its states: each step keeps it. Then
  every execution does.
\<close>

locale step_invariant =
  fixes step :: "'s \<Rightarrow> 's \<Rightarrow> bool"
    and inv :: "'s \<Rightarrow> bool"
  assumes step_keeps: "step s s' \<Longrightarrow> inv s \<Longrightarrow> inv s'"
begin

lemma steps_keep: "step\<^sup>*\<^sup>* s s' \<Longrightarrow> inv s \<Longrightarrow> inv s'"
  by (induction rule: rtranclp_induct) (auto intro: step_keeps)

lemma iterates_keep: "(step ^^ n) s s' \<Longrightarrow> inv s \<Longrightarrow> inv s'"
  by (blast intro: steps_keep relpowp_imp_rtranclp)

end

end
