(* ===== verification/Float32.thy ===== *)
theory Float32
  imports Prelude Complex_Main "HOL-Library.Word"
begin

text \<open>
  The type \<open>float\<close> of the program: IEEE 754 binary32 with rounding to nearest, ties to
  even, which is what a C++ compiler evaluates on the targets of the build (no excess
  precision, no contraction: the program has no \<open>a * b + c\<close> on floats). A finite value is
  the rational number it denotes. The two zeros are one value here: no operation of the
  program tells them apart (they compare equal, and no denominator of the program is zero).
  The payload of a NaN is not kept.
\<close>

section \<open>Rounding a rational number\<close>

text \<open>Nearest integer, ties to even.\<close>

definition rne :: "rat \<Rightarrow> int" where
  "rne q = (let f = \<lfloor>q\<rfloor>; d = q - of_int f
            in if d < 1 / 2 \<or> (d = 1 / 2 \<and> even f) then f else f + 1)"

text \<open>Number of binary digits, and \<open>\<lfloor>log2 x\<rfloor>\<close> of a positive rational.\<close>

fun bits :: "nat \<Rightarrow> nat" where
  "bits n = (if n = 0 then 0 else Suc (bits (n div 2)))"

declare bits.simps [simp del]

definition ilog2 :: "rat \<Rightarrow> int" where
  "ilog2 x = (let (a, b) = quotient_of x; k = int (bits (nat a)) - int (bits (nat b))
              in if 2 powi k \<le> x then k else k - 1)"

text \<open>
  The exponent of the unit in the last place of the binary32 numbers around \<open>x\<close>: 24 bits
  of significand, exponents from -126 on (below that the numbers are subnormal).
\<close>

definition ulp_exp :: "rat \<Rightarrow> int" where
  "ulp_exp x = max (ilog2 \<bar>x\<bar>) (- 126) - 23"

definition round_rat :: "rat \<Rightarrow> rat" where
  "round_rat x = (if x = 0 then 0
     else of_int (rne (x / 2 powi ulp_exp x)) * 2 powi ulp_exp x)"

subsection \<open>The nearest integer\<close>

lemma rne_of_int [simp]: "rne (of_int n) = n"
  by (simp add: rne_def)

lemma rne_0 [simp]: "rne 0 = 0"
  using rne_of_int [of 0] by simp

lemma rne_bounds: "\<lfloor>q\<rfloor> \<le> rne q" "rne q \<le> \<lfloor>q\<rfloor> + 1"
  by (simp_all add: rne_def Let_def)

lemma rne_mono:
  assumes "x \<le> y"
  shows "rne x \<le> rne y"
proof (cases "\<lfloor>x\<rfloor> = \<lfloor>y\<rfloor>")
  case True
  with assms show ?thesis by (auto simp: rne_def Let_def)
next
  case False
  then have "\<lfloor>x\<rfloor> + 1 \<le> \<lfloor>y\<rfloor>" using floor_mono [OF assms] by simp
  with rne_bounds [of x] rne_bounds [of y] show ?thesis by linarith
qed

lemma rne_error: "\<bar>of_int (rne q) - q\<bar> \<le> 1 / 2"
proof -
  have "0 \<le> q - of_int \<lfloor>q\<rfloor>" "q - of_int \<lfloor>q\<rfloor> < 1"
    by linarith+
  then show ?thesis by (auto simp: rne_def Let_def abs_le_iff)
qed

lemma rne_minus: "rne (- q) = - rne q"
proof (cases "q = of_int \<lfloor>q\<rfloor>")
  case True
  have "rne (- q) = rne (of_int (- \<lfloor>q\<rfloor>))" using True by simp
  also have "\<dots> = - \<lfloor>q\<rfloor>" by (rule rne_of_int)
  also have "\<lfloor>q\<rfloor> = rne q" using True by (metis rne_of_int)
  finally show ?thesis .
next
  case False
  then have "of_int \<lfloor>q\<rfloor> < q" using of_int_floor_le [of q] by (metis order_le_imp_less_or_eq)
  moreover have "q < of_int \<lfloor>q\<rfloor> + 1" by linarith
  ultimately have fl: "\<lfloor>- q\<rfloor> = - \<lfloor>q\<rfloor> - 1" by (intro floor_unique) simp_all
  show ?thesis
    by (cases "q - of_int \<lfloor>q\<rfloor> = 1 / 2")
      (auto simp: rne_def Let_def fl algebra_simps)
qed

subsection \<open>The binary logarithm\<close>

lemma bits_bounds: "0 < n \<Longrightarrow> 2 ^ (bits n - 1) \<le> n \<and> n < 2 ^ bits n \<and> 0 < bits n"
proof (induction n rule: bits.induct)
  case (1 n)
  show ?case
  proof (cases "n = 1")
    case True
    have "bits (Suc 0) = 1" by (simp add: bits.simps [of "Suc 0"] bits.simps [of 0])
    with True show ?thesis by simp
  next
    case False
    with 1 have IH: "2 ^ (bits (n div 2) - 1) \<le> n div 2" "n div 2 < 2 ^ bits (n div 2)"
      "0 < bits (n div 2)" by auto
    have b: "bits n = Suc (bits (n div 2))" using "1.prems" by (simp add: bits.simps [of n])
    have "2 ^ bits (n div 2) = 2 * (2::nat) ^ (bits (n div 2) - 1)"
      using IH(3) by (cases "bits (n div 2)") simp_all
    then have "2 ^ bits (n div 2) \<le> n" using IH(1) by linarith
    then show ?thesis using IH(2) by (simp add: b)
  qed
qed

lemma ilog2_bounds:
  assumes "0 < x"
  shows "2 powi ilog2 x \<le> x \<and> x < 2 powi (ilog2 x + 1)"
proof -
  obtain a b where q: "quotient_of x = (a, b)" by fastforce
  have x: "x = of_int a / of_int b" and b: "0 < b"
    using quotient_of_div [OF q] quotient_of_denom_pos [OF q] by simp_all
  have a: "0 < a" using assms b by (simp add: x zero_less_divide_iff)
  define m n where "m = bits (nat a)" and "n = bits (nat b)"
  have A: "2 ^ (m - 1) \<le> nat a" "nat a < 2 ^ m" "0 < m"
    using bits_bounds [of "nat a"] a by (simp_all add: m_def)
  have B: "2 ^ (n - 1) \<le> nat b" "nat b < 2 ^ n" "0 < n"
    using bits_bounds [of "nat b"] b by (simp_all add: n_def)
  have ra: "2 powi (int m - 1) \<le> (of_int a :: rat)" "(of_int a :: rat) < 2 powi int m"
  proof -
    have "(2::rat) ^ (m - 1) = of_nat (2 ^ (m - 1))" by simp
    also have "\<dots> \<le> of_nat (nat a)" using A(1) by (rule of_nat_mono)
    finally show "2 powi (int m - 1) \<le> (of_int a :: rat)"
      using a A(3) by (simp add: power_int_def nat_diff_distrib)
    have "of_nat (nat a) < (of_nat (2 ^ m) :: rat)" using A(2) by (simp only: of_nat_less_iff)
    then show "(of_int a :: rat) < 2 powi int m" using a by simp
  qed
  have rb: "2 powi (int n - 1) \<le> (of_int b :: rat)" "(of_int b :: rat) < 2 powi int n"
  proof -
    have "(2::rat) ^ (n - 1) = of_nat (2 ^ (n - 1))" by simp
    also have "\<dots> \<le> of_nat (nat b)" using B(1) by (rule of_nat_mono)
    finally show "2 powi (int n - 1) \<le> (of_int b :: rat)"
      using b B(3) by (simp add: power_int_def nat_diff_distrib)
    have "of_nat (nat b) < (of_nat (2 ^ n) :: rat)" using B(2) by (simp only: of_nat_less_iff)
    then show "(of_int b :: rat) < 2 powi int n" using b by simp
  qed
  define k where "k = int m - int n"
  have rb0: "0 < (of_int b :: rat)" using b by simp
  have "2 powi (k - 1) * of_int b \<le> 2 powi (k - 1) * (2::rat) powi int n"
    using rb(2) by (intro mult_left_mono) simp_all
  also have "\<dots> = 2 powi (k - 1 + int n)" by (rule power_int_add [symmetric]) simp
  also have "(2::rat) powi (k - 1 + int n) = 2 powi (int m - 1)" by (simp add: k_def)
  also have "\<dots> \<le> of_int a" by (rule ra(1))
  finally have lo: "2 powi (k - 1) \<le> x" using rb0 by (simp add: x pos_le_divide_eq)
  have "of_int a < (2::rat) powi int m" by (rule ra(2))
  also have "(2::rat) powi int m = 2 powi (k + 1 + (int n - 1))" by (simp add: k_def)
  also have "\<dots> = 2 powi (k + 1) * 2 powi (int n - 1)" by (rule power_int_add) simp
  also have "\<dots> \<le> 2 powi (k + 1) * of_int b"
    using rb(1) by (intro mult_left_mono) simp_all
  finally have hi: "x < 2 powi (k + 1)" using rb0 by (simp add: x pos_divide_less_eq)
  have "ilog2 x = (if 2 powi k \<le> x then k else k - 1)"
    by (simp add: ilog2_def q k_def m_def n_def)
  with lo hi show ?thesis by auto
qed

lemma powi2_less_iff: "(2::rat) powi a < 2 powi b \<longleftrightarrow> a < b"
  using power_int_strict_increasing [of a b "2::rat"] power_int_increasing [of b a "2::rat"]
  by (cases "a < b") (simp_all add: not_less)

lemma powi2_le_iff: "(2::rat) powi a \<le> 2 powi b \<longleftrightarrow> a \<le> b"
  using powi2_less_iff [of b a] by (simp add: not_less [symmetric])

lemma ilog2_less: "0 < x \<Longrightarrow> x < 2 powi k \<Longrightarrow> ilog2 x < k"
  using ilog2_bounds [of x] powi2_less_iff [of "ilog2 x" k] by simp

lemma ilog2_ge: "0 < x \<Longrightarrow> 2 powi k \<le> x \<Longrightarrow> k \<le> ilog2 x"
  using ilog2_bounds [of x] powi2_less_iff [of k "ilog2 x + 1"] by simp

lemma ilog2_mono: "0 < x \<Longrightarrow> x \<le> y \<Longrightarrow> ilog2 x \<le> ilog2 y"
  using ilog2_bounds [of x] by (intro ilog2_ge) simp_all


lemma ulp_exp_ge: "- 149 \<le> ulp_exp x"
  by (simp add: ulp_exp_def)

lemma ulp_exp_mono: "0 < x \<Longrightarrow> x \<le> y \<Longrightarrow> ulp_exp x \<le> ulp_exp y"
  using ilog2_mono [of x y] by (simp add: ulp_exp_def)

subsection \<open>Representable numbers\<close>

text \<open>
  A number is representable (exponent range above unbounded) when it is an integer of at
  most 24 bits scaled by a power of two that is not below \<open>2^-149\<close>.
\<close>

definition repr32 :: "rat \<Rightarrow> bool" where
  "repr32 x \<longleftrightarrow> (\<exists>m e. x = of_int m * 2 powi e \<and> \<bar>m\<bar> \<le> 2 ^ 24 \<and> - 149 \<le> e)"

lemma repr32_0 [simp]: "repr32 0"
  unfolding repr32_def by (rule exI [of _ 0], rule exI [of _ 0]) simp

lemma repr32_of_int: "\<bar>n\<bar> \<le> 2 ^ 24 \<Longrightarrow> repr32 (of_int n)"
  unfolding repr32_def by (rule exI [of _ n], rule exI [of _ 0]) simp

lemma repr32_scaled: "\<bar>n\<bar> \<le> 2 ^ 24 \<Longrightarrow> k \<le> 149 \<Longrightarrow> repr32 (of_int n / 2 ^ k)"
  unfolding repr32_def
  by (rule exI [of _ n], rule exI [of _ "- int k"]) (simp add: power_int_minus divide_inverse)

lemma repr32_minus: "repr32 x \<Longrightarrow> repr32 (- x)"
proof -
  assume "repr32 x"
  then obtain m e where "x = of_int m * 2 powi e" "\<bar>m\<bar> \<le> 2 ^ 24" "- 149 \<le> e"
    by (auto simp: repr32_def)
  then have "- x = of_int (- m) * 2 powi e \<and> \<bar>- m\<bar> \<le> 2 ^ 24 \<and> - 149 \<le> e" by simp
  then show ?thesis unfolding repr32_def by blast
qed

text \<open>The rounded number in units of the last place is an integer of at most 24 bits.\<close>

lemma rne_of_powi:
  assumes "0 \<le> k"
  shows "rne (2 powi k) = 2 ^ nat k"
proof -
  have "(2::rat) powi k = of_int (2 ^ nat k)" using assms by (simp add: power_int_def)
  then show ?thesis by (simp only: rne_of_int)
qed

lemma powi_div: "(2::rat) powi a / 2 powi b = 2 powi (a - b)"
  by (simp add: power_int_diff)

lemma round_rat_le_powi:
  assumes "0 < x" and "x \<le> 2 powi k" and "ulp_exp x \<le> k"
  shows "round_rat x \<le> 2 powi k"
proof -
  let ?u = "ulp_exp x"
  have "x / 2 powi ?u \<le> 2 powi k / 2 powi ?u"
    using assms(2) by (intro divide_right_mono) simp_all
  then have "rne (x / 2 powi ?u) \<le> 2 ^ nat (k - ?u)"
    using rne_mono [of "x / 2 powi ?u" "2 powi (k - ?u)"] assms(3)
    by (simp add: powi_div rne_of_powi)
  then have "(of_int (rne (x / 2 powi ?u)) :: rat) \<le> of_int (2 ^ nat (k - ?u))"
    by (simp only: of_int_le_iff)
  also have "\<dots> = 2 powi (k - ?u)" using assms(3) by (simp add: power_int_def)
  finally have "of_int (rne (x / 2 powi ?u)) * 2 powi ?u \<le> 2 powi (k - ?u) * (2::rat) powi ?u"
    by (intro mult_right_mono) simp_all
  also have "\<dots> = 2 powi k" by (simp flip: power_int_add)
  finally show ?thesis using assms(1) by (simp add: round_rat_def)
qed

lemma round_rat_ge_powi:
  assumes "0 < x" and "2 powi k \<le> x" and "ulp_exp x \<le> k"
  shows "2 powi k \<le> round_rat x"
proof -
  let ?u = "ulp_exp x"
  have "2 powi k / 2 powi ?u \<le> x / 2 powi ?u"
    using assms(2) by (intro divide_right_mono) simp_all
  then have "2 ^ nat (k - ?u) \<le> rne (x / 2 powi ?u)"
    using rne_mono [of "2 powi (k - ?u)" "x / 2 powi ?u"] assms(3)
    by (simp add: powi_div rne_of_powi)
  then have "of_int (2 ^ nat (k - ?u)) \<le> (of_int (rne (x / 2 powi ?u)) :: rat)"
    by (simp only: of_int_le_iff)
  moreover have "(2::rat) powi (k - ?u) = of_int (2 ^ nat (k - ?u))"
    using assms(3) by (simp add: power_int_def)
  ultimately have "2 powi (k - ?u) * (2::rat) powi ?u \<le> of_int (rne (x / 2 powi ?u)) * 2 powi ?u"
    by (intro mult_right_mono) simp_all
  moreover have "2 powi (k - ?u) * (2::rat) powi ?u = 2 powi k" by (simp flip: power_int_add)
  ultimately show ?thesis using assms(1) by (simp add: round_rat_def)
qed

lemma round_rat_minus: "round_rat (- x) = - round_rat x"
  by (simp add: round_rat_def ulp_exp_def rne_minus)

lemma round_rat_0 [simp]: "round_rat 0 = 0"
  by (simp add: round_rat_def)

lemma round_rat_nonneg: "0 \<le> x \<Longrightarrow> 0 \<le> round_rat x"
proof -
  assume "0 \<le> x"
  then have "rne 0 \<le> rne (x / 2 powi ulp_exp x)"
    by (intro rne_mono) simp
  then show ?thesis by (simp add: round_rat_def)
qed

lemma round_rat_mono_pos:
  assumes "0 < x" and "x \<le> y"
  shows "round_rat x \<le> round_rat y"
proof (cases "ulp_exp x = ulp_exp y")
  case True
  have "rne (x / 2 powi ulp_exp y) \<le> rne (y / 2 powi ulp_exp y)"
    using assms(2) by (intro rne_mono divide_right_mono) simp_all
  with True assms show ?thesis by (simp add: round_rat_def mult_right_mono)
next
  case False
  define k where "k = ulp_exp y + 23"
  have less: "ulp_exp x < ulp_exp y" using ulp_exp_mono [OF assms] False by simp
  then have y: "ulp_exp y = ilog2 y - 23" using assms ulp_exp_ge [of x]
    by (auto simp: ulp_exp_def)
  have "2 powi k \<le> y" using ilog2_bounds [of y] assms by (simp add: k_def y)
  moreover have "x \<le> 2 powi k"
  proof -
    have "ilog2 x + 1 \<le> k" using less assms by (simp add: k_def ulp_exp_def)
    then have "(2::rat) powi (ilog2 x + 1) \<le> 2 powi k" by (simp only: powi2_le_iff)
    with ilog2_bounds [of x] assms(1) show ?thesis by linarith
  qed
  ultimately show ?thesis
    using round_rat_le_powi [of x k] round_rat_ge_powi [of y k] assms less
    by (simp add: k_def)
qed

lemma round_rat_mono:
  assumes "x \<le> y"
  shows "round_rat x \<le> round_rat y"
proof -
  consider "0 < x" | "y < 0" | "x \<le> 0" "0 \<le> y" using assms by linarith
  then show ?thesis
  proof cases
    case 1
    then show ?thesis using assms by (rule round_rat_mono_pos)
  next
    case 2
    then have "round_rat (- y) \<le> round_rat (- x)" using assms by (intro round_rat_mono_pos) simp_all
    then show ?thesis by (simp add: round_rat_minus)
  next
    case 3
    then have "0 \<le> round_rat (- x)" "0 \<le> round_rat y" by (simp_all add: round_rat_nonneg)
    then show ?thesis by (simp add: round_rat_minus)
  qed
qed

lemma round_rat_repr_pos:
  assumes "repr32 x" and "0 < x"
  shows "round_rat x = x"
proof -
  obtain m e where x: "x = of_int m * 2 powi e" and m: "\<bar>m\<bar> \<le> 2 ^ 24" and e: "- 149 \<le> e"
    using assms(1) by (auto simp: repr32_def)
  have "\<exists>n. x / 2 powi ulp_exp x = of_int n"
  proof (cases "ulp_exp x \<le> e")
    case True
    have "x / 2 powi ulp_exp x = of_int m * 2 powi (e - ulp_exp x)" by (simp add: x powi_div [symmetric])
    also have "\<dots> = of_int (m * 2 ^ nat (e - ulp_exp x))" using True by (simp add: power_int_def)
    finally show ?thesis by blast
  next
    case False
    then have u: "ulp_exp x = ilog2 x - 23" "e + 24 \<le> ilog2 x" using e assms(2)
      by (auto simp: ulp_exp_def)
    have "(2::rat) powi (e + 24) \<le> 2 powi ilog2 x" using u(2) by (simp only: powi2_le_iff)
    then have lo: "2 powi (e + 24) \<le> x" using ilog2_bounds [of x] assms(2) by linarith
    have "(of_int m :: rat) \<le> of_int (2 ^ 24)" using m by (simp only: of_int_le_iff)
    then have "x \<le> 2 ^ 24 * 2 powi e" unfolding x by (intro mult_right_mono) simp_all
    then have eq: "x = 2 powi (e + 24)" using lo by (simp add: power_int_add)
    then have "ilog2 x = e + 24"
      using ilog2_less [of x "e + 25"] ilog2_ge [of x "e + 24"] assms(2)
      by (simp add: powi2_less_iff)
    then have "x / 2 powi ulp_exp x = 2 powi (e + 24 - (e + 1))"
      using u(1) by (simp add: eq powi_div)
    also have "\<dots> = of_int (2 ^ 23)" by simp
    finally show ?thesis by blast
  qed
  then obtain n where n: "x / 2 powi ulp_exp x = of_int n" by blast
  then have "round_rat x = of_int n * 2 powi ulp_exp x" using assms(2) by (simp add: round_rat_def)
  also have "\<dots> = x" by (simp flip: n)
  finally show ?thesis .
qed

lemma round_rat_repr: "repr32 x \<Longrightarrow> round_rat x = x"
proof (cases x "0::rat" rule: linorder_cases)
  case less
  assume "repr32 x"
  with less have "round_rat (- x) = - x" by (intro round_rat_repr_pos repr32_minus) simp_all
  then show ?thesis by (simp add: round_rat_minus)
qed (simp_all add: round_rat_repr_pos)

lemma round_rat_le: "x \<le> c \<Longrightarrow> repr32 c \<Longrightarrow> round_rat x \<le> c"
  using round_rat_mono [of x c] by (simp add: round_rat_repr)

lemma round_rat_ge: "c \<le> x \<Longrightarrow> repr32 c \<Longrightarrow> c \<le> round_rat x"
  using round_rat_mono [of c x] by (simp add: round_rat_repr)

lemma round_rat_abs_le: "\<bar>x\<bar> \<le> c \<Longrightarrow> repr32 c \<Longrightarrow> \<bar>round_rat x\<bar> \<le> c"
  using round_rat_le [of x c] round_rat_ge [of "- c" x] by (simp add: repr32_minus abs_le_iff)

text \<open>Rounding gives a representable number, and errs by at most \<open>2^-24\<close> of the value.\<close>

lemma repr32_round_pos:
  assumes "0 < x"
  shows "repr32 (round_rat x)"
proof -
  let ?u = "ulp_exp x" and ?n = "rne (x / 2 powi ulp_exp x)"
  have "x < 2 powi (?u + 24)"
  proof -
    have "ilog2 x + 1 \<le> ?u + 24" using assms by (simp add: ulp_exp_def)
    then have "(2::rat) powi (ilog2 x + 1) \<le> 2 powi (?u + 24)" by (simp only: powi2_le_iff)
    with ilog2_bounds [of x] assms show ?thesis by linarith
  qed
  then have "x / 2 powi ?u \<le> 2 powi (?u + 24) / 2 powi ?u"
    by (intro divide_right_mono) simp_all
  also have "\<dots> = 2 powi 24" by (simp only: powi_div) simp
  finally have "?n \<le> 2 ^ 24" using rne_mono [of "x / 2 powi ?u" "2 powi 24"] rne_of_powi [of 24]
    by simp
  moreover have "0 \<le> ?n" using rne_mono [of 0 "x / 2 powi ?u"] assms by simp
  ultimately have "\<bar>?n\<bar> \<le> 2 ^ 24" by simp
  moreover have "round_rat x = of_int ?n * 2 powi ?u" using assms by (simp add: round_rat_def)
  ultimately show ?thesis using ulp_exp_ge [of x] unfolding repr32_def by blast
qed

lemma repr32_round: "repr32 (round_rat x)"
proof (cases x "0::rat" rule: linorder_cases)
  case less
  then have "repr32 (- round_rat x)" using repr32_round_pos [of "- x"] by (simp add: round_rat_minus)
  then show ?thesis using repr32_minus [of "- round_rat x"] by simp
qed (simp_all add: repr32_round_pos)

lemma round_rat_rel_error:
  assumes "2 powi (- 126) \<le> \<bar>x\<bar>"
  shows "\<bar>round_rat x - x\<bar> \<le> \<bar>x\<bar> / 2 ^ 24"
proof -
  let ?u = "ulp_exp x"
  have pos: "0 < \<bar>x\<bar>" using assms zero_less_power_int [of "2::rat" "- 126"] by linarith
  then have u: "?u = ilog2 \<bar>x\<bar> - 23" using ilog2_ge [OF _ assms] by (simp add: ulp_exp_def)
  have "\<bar>round_rat x - x\<bar> = \<bar>of_int (rne (x / 2 powi ?u)) - x / 2 powi ?u\<bar> * 2 powi ?u"
  proof -
    have "round_rat x - x = (of_int (rne (x / 2 powi ?u)) - x / 2 powi ?u) * 2 powi ?u"
      using pos by (simp add: round_rat_def left_diff_distrib)
    then show ?thesis by (simp add: abs_mult)
  qed
  also have "\<dots> \<le> 1 / 2 * 2 powi ?u" by (intro mult_right_mono rne_error) simp
  also have "\<dots> = 2 powi ilog2 \<bar>x\<bar> / 2 ^ 24" by (simp add: u power_int_diff)
  also have "\<dots> \<le> \<bar>x\<bar> / 2 ^ 24" using ilog2_bounds [OF pos] by (intro divide_right_mono) simp_all
  finally show ?thesis .
qed


text \<open>
  Rounding a concrete number: name the exponent \<open>u\<close> of the last place and the nearest
  integer multiple; the side conditions are inequalities between numerals.
\<close>

lemma rne_unique: "\<bar>q - of_int n\<bar> < 1 / 2 \<Longrightarrow> rne q = n"
  using rne_error [of q] by linarith

lemma ulp_exp_eq:
  assumes "2 powi (u + 23) \<le> x" and "x < 2 powi (u + 24)" and "- 149 \<le> u"
  shows "ulp_exp x = u"
proof -
  have "0 < x" using assms(1) zero_less_power_int [of "2::rat" "u + 23"] by linarith
  then have "ilog2 x = u + 23"
    using ilog2_less [of x "u + 24"] ilog2_ge [of x "u + 23"] assms(1,2) by simp
  with assms(3) \<open>0 < x\<close> show ?thesis by (simp add: ulp_exp_def)
qed

lemma round_rat_eq:
  assumes "2 powi (u + 23) \<le> x" and "x < 2 powi (u + 24)" and "- 149 \<le> u"
    and "\<bar>x / 2 powi u - of_int n\<bar> < 1 / 2"
  shows "round_rat x = of_int n * 2 powi u"
proof -
  have "0 < x" using assms(1) zero_less_power_int [of "2::rat" "u + 23"] by linarith
  then show ?thesis using ulp_exp_eq [OF assms(1-3)] rne_unique [OF assms(4)]
    by (simp add: round_rat_def)
qed

subsection \<open>What the components use of rounding\<close>

text \<open>
  The interface of the rounding: monotone, and the identity on representable numbers. All
  the bounds of the audio path follow from these two laws.
\<close>

locale rounding =
  fixes rnd :: "rat \<Rightarrow> rat" and rep :: "rat \<Rightarrow> bool"
  assumes rnd_mono: "x \<le> y \<Longrightarrow> rnd x \<le> rnd y"
    and rnd_rep: "rep x \<Longrightarrow> rnd x = x"
    and rep_rnd: "rep (rnd x)"
    and rep_minus: "rep x \<Longrightarrow> rep (- x)"
begin

lemma rnd_le: "x \<le> c \<Longrightarrow> rep c \<Longrightarrow> rnd x \<le> c"
  using rnd_mono [of x c] by (simp add: rnd_rep)

lemma rnd_ge: "c \<le> x \<Longrightarrow> rep c \<Longrightarrow> c \<le> rnd x"
  using rnd_mono [of c x] by (simp add: rnd_rep)

lemma rnd_abs_le: "\<bar>x\<bar> \<le> c \<Longrightarrow> rep c \<Longrightarrow> \<bar>rnd x\<bar> \<le> c"
  using rnd_le [of x c] rnd_ge [of "- c" x] by (simp add: rep_minus abs_le_iff)

lemma rnd_idem: "rnd (rnd x) = rnd x"
  by (rule rnd_rep [OF rep_rnd])

lemma rnd_add_bound:
  assumes "\<bar>x\<bar> \<le> a" and "\<bar>y\<bar> \<le> b" and "rep (a + b)"
  shows "\<bar>rnd (x + y)\<bar> \<le> a + b"
  using assms by (intro rnd_abs_le) linarith+

lemma rnd_mult_bound:
  assumes "\<bar>x\<bar> \<le> a" and "\<bar>y\<bar> \<le> b" and "a * b \<le> c" and "rep c"
  shows "\<bar>rnd (x * y)\<bar> \<le> c"
proof (rule rnd_abs_le [OF _ assms(4)])
  have "\<bar>x * y\<bar> \<le> a * b" unfolding abs_mult using assms(1,2) by (intro mult_mono) auto
  with assms(3) show "\<bar>x * y\<bar> \<le> c" by simp
qed

end

interpretation rr: rounding round_rat repr32
  by unfold_locales (simp_all add: round_rat_mono round_rat_repr repr32_round repr32_minus)

section \<open>The type float\<close>

datatype float32 =
    FNan
  | FInf bool \<comment> \<open>infinity, \<open>True\<close> when negative\<close>
  | FNum rat

definition fround :: "rat \<Rightarrow> float32" where
  "fround x = (let r = round_rat x in if \<bar>r\<bar> < 2 ^ 128 then FNum r else FInf (r < 0))"

fun fneg :: "float32 \<Rightarrow> float32" where
  "fneg FNan = FNan"
| "fneg (FInf s) = FInf (\<not> s)"
| "fneg (FNum x) = FNum (- x)"

fun fabs :: "float32 \<Rightarrow> float32" where
  "fabs FNan = FNan"
| "fabs (FInf s) = FInf False"
| "fabs (FNum x) = FNum \<bar>x\<bar>"

fun fadd :: "float32 \<Rightarrow> float32 \<Rightarrow> float32" where
  "fadd (FNum x) (FNum y) = fround (x + y)"
| "fadd (FInf s) (FInf t) = (if s = t then FInf s else FNan)"
| "fadd (FInf s) (FNum _) = FInf s"
| "fadd (FNum _) (FInf t) = FInf t"
| "fadd _ _ = FNan"

definition fsub :: "float32 \<Rightarrow> float32 \<Rightarrow> float32" where
  "fsub a b = fadd a (fneg b)"

fun fmul :: "float32 \<Rightarrow> float32 \<Rightarrow> float32" where
  "fmul (FNum x) (FNum y) = fround (x * y)"
| "fmul (FInf s) (FInf t) = FInf (s \<noteq> t)"
| "fmul (FInf s) (FNum y) = (if y = 0 then FNan else FInf (s \<noteq> (y < 0)))"
| "fmul (FNum x) (FInf t) = (if x = 0 then FNan else FInf (t \<noteq> (x < 0)))"
| "fmul _ _ = FNan"

text \<open>A zero denominator counts as a positive zero; the program has none.\<close>

fun fdiv :: "float32 \<Rightarrow> float32 \<Rightarrow> float32" where
  "fdiv (FNum x) (FNum y) =
     (if y \<noteq> 0 then fround (x / y) else if x = 0 then FNan else FInf (x < 0))"
| "fdiv (FInf s) (FNum y) = FInf (s \<noteq> (y < 0))"
| "fdiv (FNum _) (FInf _) = FNum 0"
| "fdiv _ _ = FNan"

text \<open>The comparison \<open>a < b\<close>: false as soon as one side is a NaN.\<close>

fun flt :: "float32 \<Rightarrow> float32 \<Rightarrow> bool" where
  "flt (FNum x) (FNum y) = (x < y)"
| "flt (FInf s) (FInf t) = (s \<and> \<not> t)"
| "flt (FInf s) (FNum _) = s"
| "flt (FNum _) (FInf t) = (\<not> t)"
| "flt _ _ = False"

text \<open>\<open>std::max\<close> and \<open>std::min\<close> return the first argument unless the comparison holds.\<close>

definition fmax :: "float32 \<Rightarrow> float32 \<Rightarrow> float32" where
  "fmax a b = (if flt a b then b else a)"

definition fmin :: "float32 \<Rightarrow> float32 \<Rightarrow> float32" where
  "fmin a b = (if flt b a then b else a)"

fun fceil :: "float32 \<Rightarrow> float32" where
  "fceil (FNum x) = FNum (of_int \<lceil>x\<rceil>)"
| "fceil f = f"

text \<open>
  \<open>static_cast<int>\<close> truncates. On a NaN, an infinity or a value outside \<open>int\<close> the result
  is undefined in C++; the model gives what the target's conversion gives, \<open>-2^31\<close>.
\<close>

fun f_to_int :: "float32 \<Rightarrow> int" where
  "f_to_int (FNum x) =
     (let t = (if 0 \<le> x then \<lfloor>x\<rfloor> else \<lceil>x\<rceil>)
      in if - (2 ^ 31) \<le> t \<and> t < 2 ^ 31 then t else - (2 ^ 31))"
| "f_to_int _ = - (2 ^ 31)"

definition f_of_nat :: "nat \<Rightarrow> float32" where
  "f_of_nat n = fround (of_nat n)"

definition f_of_int :: "int \<Rightarrow> float32" where
  "f_of_int i = fround (of_int i)"

text \<open>The float with a given 32-bit pattern, and the float of four little-endian bytes.\<close>

definition f_of_bits :: "nat \<Rightarrow> float32" where
  "f_of_bits n =
     (let neg = (2 ^ 31 \<le> n mod 2 ^ 32); ex = n div 2 ^ 23 mod 2 ^ 8; man = n mod 2 ^ 23;
          sgn = (if neg then - 1 else 1 :: rat)
      in if ex = 255 then (if man = 0 then FInf neg else FNan)
         else if ex = 0 then FNum (sgn * of_nat man / 2 ^ 149)
         else FNum (sgn * of_nat (2 ^ 23 + man) * 2 powi (int ex - 150)))"

definition f_of_bytes :: "8 word \<Rightarrow> 8 word \<Rightarrow> 8 word \<Rightarrow> 8 word \<Rightarrow> float32" where
  "f_of_bytes b0 b1 b2 b3 =
     f_of_bits (unat b0 + 2 ^ 8 * unat b1 + 2 ^ 16 * unat b2 + 2 ^ 24 * unat b3)"

section \<open>Well-formed and bounded values\<close>

text \<open>The values a float can have: a NaN, an infinity, or a representable number.\<close>

fun f_ok :: "float32 \<Rightarrow> bool" where
  "f_ok (FNum x) = (repr32 x \<and> \<bar>x\<bar> < 2 ^ 128)"
| "f_ok _ = True"

text \<open>A finite value of absolute value at most \<open>c\<close>.\<close>

fun fbounded :: "rat \<Rightarrow> float32 \<Rightarrow> bool" where
  "fbounded c (FNum x) = (\<bar>x\<bar> \<le> c)"
| "fbounded _ _ = False"

lemma fboundedE: "fbounded c f \<Longrightarrow> (\<And>x. f = FNum x \<Longrightarrow> \<bar>x\<bar> \<le> c \<Longrightarrow> P) \<Longrightarrow> P"
  by (cases f) simp_all

lemma fbounded_mono: "fbounded c f \<Longrightarrow> c \<le> d \<Longrightarrow> fbounded d f"
  by (cases f) simp_all

lemma f_ok_fround [simp]: "f_ok (fround x)"
  by (simp add: fround_def Let_def repr32_round)

lemma f_ok_arith [simp]: "f_ok (fadd a b)" "f_ok (fmul a b)" "f_ok (fdiv a b)"
  "f_ok (f_of_nat n)" "f_ok (f_of_int i)"
  by (cases a; cases b; simp add: f_of_nat_def f_of_int_def)+

lemma f_ok_fsub [simp]: "f_ok (fsub a b)"
  by (simp add: fsub_def)

lemma f_ok_fabs [simp]: "f_ok f \<Longrightarrow> f_ok (fabs f)"
  by (cases f) (auto simp: abs_if repr32_minus)

lemma f_ok_f_of_bits: "f_ok (f_of_bits n)"
proof -
  define man where "man = n mod 2 ^ 23"
  define ex where "ex = n div 2 ^ 23 mod 2 ^ 8"
  define sgn :: int where "sgn = (if 2 ^ 31 \<le> n mod 2 ^ 32 then - 1 else 1)"
  have sgn: "(if 2 ^ 31 \<le> n mod 2 ^ 32 then - 1 else 1 :: rat) = of_int sgn" by (simp add: sgn_def)
  have m: "man < 2 ^ 23" by (simp add: man_def)
  have e: "ex < 256" by (simp add: ex_def)
  have "f_ok (FNum (of_int (sgn * int man) / 2 ^ 149))"
  proof -
    have "\<bar>sgn * int man\<bar> \<le> 2 ^ 24" using m by (simp add: sgn_def abs_mult)
    moreover have "\<bar>of_int (sgn * int man) / 2 ^ 149 :: rat\<bar> < 2 ^ 128"
    proof -
      have "\<bar>of_int (sgn * int man) :: rat\<bar> = of_nat man" by (simp add: sgn_def)
      also have "\<dots> < of_nat (2 ^ 23)" using m by (simp only: of_nat_less_iff)
      finally show ?thesis by simp
    qed
    ultimately show ?thesis by (simp only: f_ok.simps repr32_scaled)
  qed
  moreover have "f_ok (FNum (of_int (sgn * int (2 ^ 23 + man)) * 2 powi (int ex - 150)))"
    if "ex \<noteq> 0" "ex \<noteq> 255"
  proof -
    have i: "\<bar>sgn * int (2 ^ 23 + man)\<bar> \<le> 2 ^ 24 - 1" using m by (simp add: sgn_def abs_mult)
    then have "repr32 (of_int (sgn * int (2 ^ 23 + man)) * 2 powi (int ex - 150))"
      unfolding repr32_def using that
      by (intro exI [of _ "sgn * int (2 ^ 23 + man)"] exI [of _ "int ex - 150"]) simp
    moreover have "\<bar>of_int (sgn * int (2 ^ 23 + man)) * 2 powi (int ex - 150)\<bar> < (2::rat) ^ 128"
    proof -
      have "(of_int \<bar>sgn * int (2 ^ 23 + man)\<bar> :: rat) \<le> of_int (2 ^ 24 - 1)"
        using i by (simp only: of_int_le_iff)
      then have "\<bar>of_int (sgn * int (2 ^ 23 + man)) :: rat\<bar> < 2 powi 24" by simp
      moreover have "(2::rat) powi (int ex - 150) \<le> 2 powi 104"
        using e that by (simp only: powi2_le_iff)
      ultimately have "\<bar>of_int (sgn * int (2 ^ 23 + man)) :: rat\<bar> * 2 powi (int ex - 150)
          < 2 powi 24 * 2 powi 104"
        by (intro mult_less_le_imp_less) simp_all
      then show ?thesis by (simp add: abs_mult)
    qed
    ultimately show ?thesis by simp
  qed
  ultimately show ?thesis
    unfolding f_of_bits_def Let_def sgn man_def [symmetric] ex_def [symmetric] by simp
qed

lemma f_ok_f_of_bytes [simp]: "f_ok (f_of_bytes a b c d)"
  by (simp add: f_of_bytes_def f_ok_f_of_bits)

lemma fround_bounded:
  assumes "\<bar>x\<bar> \<le> c" and "repr32 c" and "c < 2 ^ 128"
  shows "fround x = FNum (round_rat x) \<and> fbounded c (fround x)"
  using rr.rnd_abs_le [OF assms(1,2)] assms(3) by (simp add: fround_def Let_def)

lemma fround_repr: "repr32 x \<Longrightarrow> \<bar>x\<bar> < 2 ^ 128 \<Longrightarrow> fround x = FNum x"
  by (simp add: fround_def round_rat_repr)

lemma fbounded_fadd:
  assumes "fbounded a f" and "fbounded b g" and "repr32 (a + b)" and "a + b < 2 ^ 128"
  shows "fbounded (a + b) (fadd f g)"
proof -
  obtain x y where xy: "f = FNum x" "\<bar>x\<bar> \<le> a" "g = FNum y" "\<bar>y\<bar> \<le> b"
    using assms(1,2) by (auto elim!: fboundedE)
  then have "\<bar>x + y\<bar> \<le> a + b" by linarith
  then have "fbounded (a + b) (fround (x + y))" using assms(3,4) fround_bounded by blast
  with xy show ?thesis by simp
qed

lemma fbounded_fneg [simp]: "fbounded c (fneg f) = fbounded c f"
  by (cases f) simp_all

lemma fbounded_fsub:
  "fbounded a f \<Longrightarrow> fbounded b g \<Longrightarrow> repr32 (a + b) \<Longrightarrow> a + b < 2 ^ 128 \<Longrightarrow>
    fbounded (a + b) (fsub f g)"
  by (simp add: fsub_def fbounded_fadd)

lemma fbounded_fmul:
  assumes "fbounded a f" and "fbounded b g" and "a * b \<le> c" and "repr32 c" and "c < 2 ^ 128"
  shows "fbounded c (fmul f g)"
proof -
  obtain x y where xy: "f = FNum x" "\<bar>x\<bar> \<le> a" "g = FNum y" "\<bar>y\<bar> \<le> b"
    using assms(1,2) by (auto elim!: fboundedE)
  have "\<bar>x * y\<bar> \<le> a * b" unfolding abs_mult using xy by (intro mult_mono) auto
  then have "\<bar>x * y\<bar> \<le> c" using assms(3) by simp
  then have "fbounded c (fround (x * y))" using assms(4,5) fround_bounded by blast
  with xy show ?thesis by simp
qed

text \<open>A NaN operand makes the result a NaN.\<close>

lemma fnan_absorbs [simp]:
  "fadd FNan g = FNan" "fadd f FNan = FNan" "fmul FNan g = FNan" "fmul f FNan = FNan"
  "fsub FNan g = FNan" "fsub f FNan = FNan"
  by (cases f; cases g; simp add: fsub_def)+

lemma flt_nan [simp]: "\<not> flt FNan g" "\<not> flt f FNan"
  by (cases g; simp) (cases f; simp)

end
