(* ===== verification/Audio.thy ===== *)
theory Audio
  imports Float32
begin

text \<open>
  \<open>src/utils/AudioPreprocessor.h\<close>: the high-pass filter and the peak normalisation that
  every accepted chunk of samples goes through. The two state variables the C++ function
  updates by reference (\<open>prev_raw\<close>, \<open>prev_filtered\<close>) are returned with the samples.
\<close>

section \<open>The model\<close>

definition alpha :: float32 where "alpha = fround (969 / 1000)"
definition noise_floor :: float32 where "noise_floor = fround (2 / 100)"
definition target_peak :: float32 where "target_peak = fround (9 / 10)"

text \<open>The loop over the samples, with the running peak.\<close>

fun hp_loop :: "float32 \<Rightarrow> float32 \<Rightarrow> float32 \<Rightarrow> float32 list
    \<Rightarrow> float32 list \<times> float32 \<times> float32 \<times> float32" where
  "hp_loop prev_raw prev_filtered peak [] = ([], prev_raw, prev_filtered, peak)"
| "hp_loop prev_raw prev_filtered peak (raw # pcm) =
     (let filtered = fmul alpha (fsub (fadd prev_filtered raw) prev_raw);
          (ys, pr, pf, pk) = hp_loop raw filtered (fmax peak (fabs filtered)) pcm
      in (filtered # ys, pr, pf, pk))"

definition process :: "float32 list \<Rightarrow> float32 \<Rightarrow> float32 \<Rightarrow> float32 list \<times> float32 \<times> float32" where
  "process pcm prev_raw prev_filtered =
     (let (ys, pr, pf, peak) = hp_loop prev_raw prev_filtered (FNum 0) pcm
      in if flt noise_floor peak \<and> flt peak target_peak
         then (let gain = fmin (fdiv target_peak peak) (FNum 4)
               in (map (\<lambda>s. fmul s gain) ys, pr, pf))
         else (ys, pr, pf))"

section \<open>The constants\<close>

lemma alpha_eq: "alpha = FNum (8128561 / 8388608)"
  using round_rat_eq [of "- 24" "969 / 1000" 16257122]
  by (simp add: alpha_def fround_def power_int_minus)

lemma target_peak_eq: "target_peak = FNum (7549747 / 8388608)"
  using round_rat_eq [of "- 24" "9 / 10" 15099494]
  by (simp add: target_peak_def fround_def power_int_minus)

lemma noise_floor_eq: "noise_floor = FNum (5368709 / 268435456)"
  using round_rat_eq [of "- 29" "2 / 100" 10737418]
  by (simp add: noise_floor_def fround_def power_int_minus)

lemmas audio_consts = alpha_eq target_peak_eq noise_floor_eq

section \<open>The filter loop\<close>

lemma hp_loop_length: "length (fst (hp_loop pr pf pk xs)) = length xs"
  by (induction xs arbitrary: pr pf pk) (simp_all add: Let_def case_prod_beta)

lemma hp_loop_ok: "y \<in> set (fst (hp_loop pr pf pk xs)) \<Longrightarrow> f_ok y"
  by (induction xs arbitrary: pr pf pk) (auto simp: Let_def case_prod_beta)

lemma filter_step_bounded:
  assumes "fbounded 1 raw" and "fbounded 1 prev_raw" and "fbounded 64 prev_filtered"
  shows "fbounded 64 (fmul alpha (fsub (fadd prev_filtered raw) prev_raw))"
proof -
  have r: "repr32 65" "repr32 66" "repr32 64"
    using repr32_of_int [of 65] repr32_of_int [of 66] repr32_of_int [of 64] by simp_all
  have "fbounded 65 (fadd prev_filtered raw)"
    using fbounded_fadd [OF assms(3,1)] r(1) by simp
  then have "fbounded 66 (fsub (fadd prev_filtered raw) prev_raw)"
    using fbounded_fsub [of 65 "fadd prev_filtered raw" 1 prev_raw] assms(2) r(2) by simp
  then show ?thesis
    using r(3) by (intro fbounded_fmul [of "8128561 / 8388608" _ 66]) (simp_all add: alpha_eq)
qed

lemma hp_loop_bounded:
  assumes "list_all (fbounded 1) xs" and "fbounded 1 pr" and "fbounded 64 pf"
    and "hp_loop pr pf pk xs = (ys, pr', pf', pk')"
  shows "list_all (fbounded 64) ys \<and> fbounded 1 pr' \<and> fbounded 64 pf'"
  using assms
proof (induction xs arbitrary: pr pf pk ys)
  case (Cons x xs)
  let ?f = "fmul alpha (fsub (fadd pf x) pr)"
  have f: "fbounded 64 ?f" using Cons.prems by (intro filter_step_bounded) simp_all
  obtain zs where zs: "hp_loop x ?f (fmax pk (fabs ?f)) xs = (zs, pr', pf', pk')"
    and ys: "ys = ?f # zs"
    using Cons.prems(4) by (auto simp: Let_def split: prod.splits)
  from Cons.IH [OF _ _ f zs] Cons.prems(1) f ys show ?case by simp
qed simp

text \<open>The peak is not below the magnitude of any filtered sample that is a number.\<close>

lemma fmax_ge: "pk \<noteq> FNan \<Longrightarrow> fmax pk z \<noteq> FNan \<and> \<not> flt (fmax pk z) pk \<and> \<not> flt (fmax pk z) z"
  by (cases pk; cases z) (auto simp: fmax_def)

lemma not_flt_trans: "b \<noteq> FNan \<Longrightarrow> \<not> flt c b \<Longrightarrow> \<not> flt b a \<Longrightarrow> \<not> flt c a"
  by (cases a; cases b; cases c) auto

lemma hp_loop_peak:
  assumes "pk \<noteq> FNan" and "hp_loop pr pf pk xs = (ys, pr', pf', pk')"
  shows "pk' \<noteq> FNan \<and> \<not> flt pk' pk \<and> (\<forall>y \<in> set ys. \<not> flt pk' (fabs y))"
  using assms
proof (induction xs arbitrary: pr pf pk ys)
  case Nil
  then show ?case by (cases pk) auto
next
  case (Cons x xs)
  let ?f = "fmul alpha (fsub (fadd pf x) pr)" and ?pk = "fmax pk (fabs (fmul alpha (fsub (fadd pf x) pr)))"
  obtain zs where zs: "hp_loop x ?f ?pk xs = (zs, pr', pf', pk')" and ys: "ys = ?f # zs"
    using Cons.prems(2) by (auto simp: Let_def split: prod.splits)
  have m: "?pk \<noteq> FNan" "\<not> flt ?pk pk" "\<not> flt ?pk (fabs ?f)"
    using fmax_ge [OF Cons.prems(1), of "fabs ?f"] by simp_all
  from Cons.IH [OF m(1) zs] have IH: "pk' \<noteq> FNan" "\<not> flt pk' ?pk" "\<forall>y \<in> set zs. \<not> flt pk' (fabs y)"
    by simp_all
  show ?case
    using IH ys not_flt_trans [OF m(1) IH(2) m(2)] not_flt_trans [OF m(1) IH(2) m(3)] by simp
qed

section \<open>The normalisation\<close>

text \<open>The gain lies between 1 and 4, and a sample below the peak ends within one unit of 0.9.\<close>

lemma gain_bounds:
  assumes "flt noise_floor (FNum p)" and "flt (FNum p) target_peak"
  shows "\<exists>g. fmin (fdiv target_peak (FNum p)) (FNum 4) = FNum g \<and> 1 \<le> g \<and> g \<le> 4
    \<and> p * g \<le> 7549747 / 8388608 * (1 + 1 / 2 ^ 24)"
proof -
  let ?c = "7549747 / 8388608 :: rat"
  let ?q = "?c / p"
  have p: "1 / 64 < p" "p < ?c" using assms by (simp_all add: audio_consts)
  have q1: "1 \<le> ?q" using p by (simp add: pos_le_divide_eq)
  have q2: "?q \<le> 64" using p by (simp add: pos_divide_le_eq)
  have r: "repr32 1" "repr32 64" using repr32_of_int [of 1] repr32_of_int [of 64] by simp_all
  have ge: "1 \<le> round_rat ?q" using q1 r(1) by (rule rr.rnd_ge)
  have le: "round_rat ?q \<le> 64" using q2 r(2) by (rule rr.rnd_le)
  have "(2::rat) powi (- 126) \<le> 2 powi 0" by (simp only: powi2_le_iff)
  also have "(2::rat) powi 0 \<le> ?q" using q1 by simp
  also have "?q \<le> \<bar>?q\<bar>" by (rule abs_ge_self)
  finally have "2 powi (- 126) \<le> \<bar>?q\<bar>" .
  then have "\<bar>round_rat ?q - ?q\<bar> \<le> \<bar>?q\<bar> / 2 ^ 24" by (rule round_rat_rel_error)
  moreover have "\<bar>?q\<bar> = ?q" using q1 by linarith
  ultimately have "round_rat ?q \<le> ?q + ?q / 2 ^ 24" by linarith
  then have err: "round_rat ?q \<le> ?q * (1 + 1 / 2 ^ 24)" by (simp only: distrib_left) simp
  have eq: "fdiv target_peak (FNum p) = FNum (round_rat ?q)"
    using p ge le by (simp add: audio_consts fround_def)
  define g where "g = min (round_rat ?q) 4"
  have "p * g \<le> p * (?q * (1 + 1 / 2 ^ 24))"
    using err p by (intro mult_left_mono) (simp_all add: g_def min_def)
  also have "\<dots> = ?c * (1 + 1 / 2 ^ 24)" using p by simp
  finally have "p * g \<le> ?c * (1 + 1 / 2 ^ 24)" .
  moreover have "fmin (fdiv target_peak (FNum p)) (FNum 4) = FNum g"
    by (simp add: fmin_def eq g_def)
  moreover have "1 \<le> g" "g \<le> 4" using ge by (simp_all add: g_def)
  ultimately show ?thesis by blast
qed

lemma repr32_times_4: "repr32 x \<Longrightarrow> repr32 (4 * x)"
proof -
  assume "repr32 x"
  then obtain m e where "x = of_int m * 2 powi e" "\<bar>m\<bar> \<le> 2 ^ 24" "- 149 \<le> e"
    by (auto simp: repr32_def)
  then have "4 * x = of_int m * 2 powi (e + 2) \<and> \<bar>m\<bar> \<le> 2 ^ 24 \<and> - 149 \<le> e + 2"
    by (simp add: power_int_add)
  then show ?thesis unfolding repr32_def by blast
qed

lemma repr32_abs: "repr32 x \<Longrightarrow> repr32 \<bar>x\<bar>"
  by (simp add: abs_if repr32_minus)

text \<open>The bound of a normalised sample: one unit in the last place above the float 0.9.\<close>

abbreviation norm_bound :: rat where "norm_bound \<equiv> 15099495 / 16777216"

lemma repr32_norm_bound: "repr32 norm_bound"
  using repr32_scaled [of 15099495 24] by simp

lemma normalise_sample:
  assumes "repr32 s" and "\<bar>s\<bar> \<le> p" and "p * g \<le> 7549747 / 8388608 * (1 + 1 / 2 ^ 24)"
    and "1 \<le> g" and "g \<le> 4" and "p \<le> 1"
  shows "\<exists>z. fmul (FNum s) (FNum g) = FNum z \<and> \<bar>s\<bar> \<le> \<bar>z\<bar> \<and> \<bar>z\<bar> \<le> 4 * \<bar>s\<bar> \<and> \<bar>z\<bar> \<le> norm_bound"
proof -
  have abs_rnd: "\<bar>round_rat x\<bar> = round_rat \<bar>x\<bar>" for x
    using round_rat_nonneg [of x] round_rat_nonneg [of "- x"]
    by (cases "0 \<le> x") (simp_all add: round_rat_minus abs_if)
  have sg: "\<bar>s * g\<bar> = \<bar>s\<bar> * g" using assms(4) by (simp add: abs_mult)
  have "\<bar>s\<bar> * 1 \<le> \<bar>s\<bar> * g" using assms(4) by (intro mult_left_mono) simp_all
  then have lo: "\<bar>s\<bar> \<le> round_rat \<bar>s * g\<bar>"
    using rr.rnd_ge [of "\<bar>s\<bar>" "\<bar>s * g\<bar>"] assms(1) by (simp add: sg repr32_abs)
  have "\<bar>s\<bar> * g \<le> \<bar>s\<bar> * 4" using assms(5) by (intro mult_left_mono) simp_all
  then have hi: "round_rat \<bar>s * g\<bar> \<le> 4 * \<bar>s\<bar>"
    using rr.rnd_le [of "\<bar>s * g\<bar>" "4 * \<bar>s\<bar>"] repr32_times_4 [OF repr32_abs [OF assms(1)]]
    by (simp add: sg)
  have "\<bar>s\<bar> * g \<le> p * g" using assms(2,4) by (intro mult_right_mono) simp_all
  then have nb: "round_rat \<bar>s * g\<bar> \<le> norm_bound"
    using assms(3) repr32_norm_bound by (intro rr.rnd_le) (simp_all add: sg)
  have "fmul (FNum s) (FNum g) = FNum (round_rat (s * g))"
    using nb by (simp add: fround_def abs_rnd)
  with lo hi nb show ?thesis by (simp add: abs_rnd)
qed

text \<open>The peak of the chunk, and whether the normalisation applies to it.\<close>

definition chunk_peak :: "float32 list \<Rightarrow> float32 \<Rightarrow> float32 \<Rightarrow> float32" where
  "chunk_peak pcm prev_raw prev_filtered = snd (snd (snd (hp_loop prev_raw prev_filtered (FNum 0) pcm)))"

definition normalised :: "float32 list \<Rightarrow> float32 \<Rightarrow> float32 \<Rightarrow> bool" where
  "normalised pcm pr pf = (flt noise_floor (chunk_peak pcm pr pf) \<and> flt (chunk_peak pcm pr pf) target_peak)"

text \<open>
  What the normalisation does to one filtered sample: a number keeps its magnitude or is
  amplified, at most fourfold and (when the gain applies) to at most 0.9; a NaN stays one.
\<close>

fun sample_rel :: "bool \<Rightarrow> float32 \<Rightarrow> float32 \<Rightarrow> bool" where
  "sample_rel n (FNum s) z =
     (\<exists>v. z = FNum v \<and> \<bar>s\<bar> \<le> \<bar>v\<bar> \<and> \<bar>v\<bar> \<le> 4 * \<bar>s\<bar> \<and> (n \<longrightarrow> \<bar>v\<bar> \<le> norm_bound))"
| "sample_rel n s z = (z = s)"

lemma process_samples:
  "list_all2 (sample_rel (normalised pcm pr pf))
     (fst (hp_loop pr pf (FNum 0) pcm)) (fst (process pcm pr pf))"
proof -
  obtain ys pr' pf' pk where h: "hp_loop pr pf (FNum 0) pcm = (ys, pr', pf', pk)"
    by (metis prod_cases4)
  have n: "normalised pcm pr pf = (flt noise_floor pk \<and> flt pk target_peak)"
    by (simp add: normalised_def chunk_peak_def h)
  show ?thesis
  proof (cases "normalised pcm pr pf")
    case False
    then have "process pcm pr pf = (ys, pr', pf')" using n by (auto simp: process_def h)
    moreover have "sample_rel False y y" for y by (cases y) auto
    ultimately show ?thesis using False by (simp add: h list.rel_refl)
  next
    case True
    then have fl: "flt noise_floor pk" "flt pk target_peak" using n by simp_all
    then obtain p where p: "pk = FNum p" by (cases pk) (auto simp: audio_consts)
    obtain g where g: "fmin (fdiv target_peak (FNum p)) (FNum 4) = FNum g" "1 \<le> g" "g \<le> 4"
      "p * g \<le> 7549747 / 8388608 * (1 + 1 / 2 ^ 24)"
      using gain_bounds fl p by blast
    have p1: "p \<le> 1" using fl by (simp add: p audio_consts)
    have out: "fst (process pcm pr pf) = map (\<lambda>s. fmul s (FNum g)) ys"
      using fl by (simp add: process_def h p g(1) Let_def)
    have "sample_rel True y (fmul y (FNum g))" if y: "y \<in> set ys" for y
    proof -
      have nf: "\<not> flt (FNum p) (fabs y)" using hp_loop_peak [OF _ h] y by (simp add: p)
      have ok: "f_ok y" using hp_loop_ok [of y pr pf "FNum 0" pcm] y by (simp add: h)
      show ?thesis
      proof (cases y)
        case (FNum s)
        with nf ok have "\<bar>s\<bar> \<le> p" "repr32 s" by simp_all
        then show ?thesis using normalise_sample [OF _ _ g(4,2,3) p1] by (simp add: FNum)
      qed (use nf in simp_all)
    qed
    then show ?thesis using True by (simp add: h out list.rel_map list.rel_refl_strong)
  qed
qed

lemma process_length: "length (fst (process pcm pr pf)) = length pcm"
  using hp_loop_length [of pr pf "FNum 0" pcm]
  by (auto simp: process_def Let_def split: prod.splits)

lemma process_bounded:
  assumes "list_all (fbounded 1) pcm" and "fbounded 1 pr" and "fbounded 64 pf"
    and "process pcm pr pf = (out, pr', pf')"
  shows "list_all (fbounded 64) out \<and> fbounded 1 pr' \<and> fbounded 64 pf'"
proof -
  obtain ys qr qf pk where h: "hp_loop pr pf (FNum 0) pcm = (ys, qr, qf, pk)" by (metis prod_cases4)
  note b = hp_loop_bounded [OF assms(1-3) h]
  have st: "pr' = qr" "pf' = qf" using assms(4) by (auto simp: process_def h Let_def split: if_splits)
  have rel: "list_all2 (sample_rel (normalised pcm pr pf)) ys out"
    using process_samples [of pcm pr pf] by (simp add: h assms(4))
  have "list_all (fbounded 64) out"
  proof (cases "normalised pcm pr pf")
    case True
    have "fbounded 64 z" if z: "z \<in> set out" for z
    proof -
      obtain i where i: "i < length out" "z = out ! i" using z by (auto simp: in_set_conv_nth)
      have "sample_rel True (ys ! i) z" using list_all2_nthD2 [OF rel i(1)] True i(2) by simp
      moreover have "fbounded 64 (ys ! i)"
        using b i(1) list_all2_lengthD [OF rel] by (simp add: list_all_length)
      ultimately show ?thesis by (cases "ys ! i") auto
    qed
    then show ?thesis by (simp add: list_all_iff)
  next
    case False
    then have "out = ys" using assms(4) by (auto simp: process_def h normalised_def chunk_peak_def)
    then show ?thesis using b by simp
  qed
  with b st show ?thesis by simp
qed

section \<open>The peak of the chunk\<close>

text \<open>The largest magnitude of the numbers in a chunk, and whether it has an infinity; NaNs do not count.\<close>

fun mag_max :: "float32 list \<Rightarrow> rat" where
  "mag_max [] = 0"
| "mag_max (FNum v # ys) = max \<bar>v\<bar> (mag_max ys)"
| "mag_max (y # ys) = mag_max ys"

fun is_inf :: "float32 \<Rightarrow> bool" where
  "is_inf (FInf s) = True"
| "is_inf y = False"

lemma mag_max_nonneg [simp]: "0 \<le> mag_max ys"
  by (induction ys rule: mag_max.induct) auto

lemma mag_max_ge: "FNum v \<in> set ys \<Longrightarrow> \<bar>v\<bar> \<le> mag_max ys"
  by (induction ys rule: mag_max.induct) auto

lemma hp_loop_inf_peak: "hp_loop pr pf (FInf False) xs = (ys, pr', pf', pk) \<Longrightarrow> pk = FInf False"
proof (induction xs arbitrary: pr pf ys)
  case (Cons x xs)
  have "fmax (FInf False) z = FInf False" for z by (cases z) (auto simp: fmax_def)
  then show ?case using Cons by (auto simp: Let_def split: prod.splits)
qed simp

lemma hp_loop_mag_max:
  assumes "hp_loop pr pf (FNum q) xs = (ys, pr', pf', pk)" and "0 \<le> q"
  shows "pk = (if list_ex is_inf ys then FInf False else FNum (max q (mag_max ys)))"
  using assms
proof (induction xs arbitrary: pr pf q ys)
  case (Cons x xs)
  let ?f = "fmul alpha (fsub (fadd pf x) pr)"
  obtain zs where zs: "hp_loop x ?f (fmax (FNum q) (fabs ?f)) xs = (zs, pr', pf', pk)" and ys: "ys = ?f # zs"
    using Cons.prems(1) by (auto simp: Let_def split: prod.splits)
  show ?case
  proof (cases ?f)
    case FNan
    then have "fmax (FNum q) (fabs ?f) = FNum q" by (simp add: fmax_def)
    then show ?thesis using Cons.IH [of x ?f q zs] zs ys Cons.prems(2) FNan by simp
  next
    case (FInf s)
    then have "fmax (FNum q) (fabs ?f) = FInf False" by (simp add: fmax_def)
    then show ?thesis using hp_loop_inf_peak [of x ?f xs zs] zs ys FInf by simp
  next
    case (FNum v)
    then have "fmax (FNum q) (fabs ?f) = FNum (max q \<bar>v\<bar>)" by (auto simp: fmax_def)
    then show ?thesis using Cons.IH [of x ?f "max q \<bar>v\<bar>" zs] zs ys Cons.prems(2) FNum
      by (simp add: max.assoc)
  qed
qed simp

text \<open>The floats of 0.02 and 0.9.\<close>

abbreviation noise_rat :: rat where "noise_rat \<equiv> 5368709 / 268435456"
abbreviation target_rat :: rat where "target_rat \<equiv> 7549747 / 8388608"

text \<open>The gain, and the peak it gives when it is below 4.\<close>

lemma gain_value:
  assumes "noise_rat < p" and "p < target_rat"
  shows "fmin (fdiv target_peak (FNum p)) (FNum 4) = FNum (min (round_rat (target_rat / p)) 4)"
proof -
  obtain g where g: "fmin (fdiv target_peak (FNum p)) (FNum 4) = FNum g"
    using gain_bounds [of p] assms by (auto simp: audio_consts)
  have "\<bar>round_rat (target_rat / p)\<bar> < 2 ^ 128"
  proof -
    have "0 \<le> target_rat / p" "target_rat / p \<le> 64" using assms by (simp_all add: pos_divide_le_eq)
    then show ?thesis
      using round_rat_le [of "target_rat / p" 64] repr32_of_int [of 64] round_rat_nonneg [of "target_rat / p"] by simp
  qed
  then show ?thesis using assms by (auto simp: audio_consts fround_def fmin_def min_def)
qed

lemma round_lower: "1 / 2 \<le> x \<Longrightarrow> x * (1 - 1 / 2 ^ 24) \<le> round_rat x"
proof -
  assume x: "1 / 2 \<le> x"
  have "(2::rat) powi (- 126) \<le> 2 powi (- 1)" by (simp only: powi2_le_iff)
  also have "(2::rat) powi (- 1) = 1 / 2" by (simp add: power_int_minus)
  finally have "2 powi (- 126) \<le> \<bar>x\<bar>" using x by linarith
  then have "\<bar>round_rat x - x\<bar> \<le> \<bar>x\<bar> / 2 ^ 24" by (rule round_rat_rel_error)
  then have "x - x / 2 ^ 24 \<le> round_rat x" using x by linarith
  then show ?thesis by (simp add: algebra_simps)
qed

lemma mag_max_map:
  assumes "mag_max ys * g \<le> b" and "0 \<le> g" and "repr32 b" and "b < 2 ^ 128" and "\<not> list_ex is_inf ys"
  shows "mag_max (map (\<lambda>s. fmul s (FNum g)) ys) = round_rat (mag_max ys * g)"
  using assms(1,5)
proof (induction ys rule: mag_max.induct)
  case (2 v ys)
  have abs_rnd: "\<bar>round_rat x\<bar> = round_rat \<bar>x\<bar>" for x
    using round_rat_nonneg [of x] round_rat_nonneg [of "- x"]
    by (cases "0 \<le> x") (simp_all add: round_rat_minus abs_if)
  have le: "\<bar>v\<bar> * g \<le> mag_max (FNum v # ys) * g" "mag_max ys * g \<le> mag_max (FNum v # ys) * g"
    using assms(2) by (auto intro: mult_right_mono)
  have "round_rat (\<bar>v\<bar> * g) \<le> b" using le(1) 2(2) assms(3) by (intro round_rat_le) simp_all
  moreover have av: "\<bar>v * g\<bar> = \<bar>v\<bar> * g" using assms(2) by (simp add: abs_mult)
  ultimately have "fmul (FNum v) (FNum g) = FNum (round_rat (v * g))"
    using assms(4) by (simp add: fround_def abs_rnd)
  moreover have "mag_max (map (\<lambda>s. fmul s (FNum g)) ys) = round_rat (mag_max ys * g)" using 2 le(2) by simp
  moreover have "max (round_rat (\<bar>v\<bar> * g)) (round_rat (mag_max ys * g)) = round_rat (max \<bar>v\<bar> (mag_max ys) * g)"
    using round_rat_mono [of "\<bar>v\<bar> * g" "mag_max ys * g"] round_rat_mono [of "mag_max ys * g" "\<bar>v\<bar> * g"] assms(2)
    by (cases "\<bar>v\<bar> \<le> mag_max ys") (auto simp: max_def mult_right_mono intro: antisym)
  ultimately show ?case by (simp add: abs_rnd av)
qed simp_all

section \<open>NaN samples\<close>

lemma hp_loop_from_nan:
  "hp_loop pr FNan pk xs = (ys, pr', pf', pk') \<Longrightarrow> set ys \<subseteq> {FNan} \<and> pf' = FNan"
proof (induction xs arbitrary: pr pk ys)
  case (Cons x xs)
  from Cons.prems obtain zs where
    zs: "hp_loop x FNan (fmax pk FNan) xs = (zs, pr', pf', pk')" and ys: "ys = FNan # zs"
    by (auto simp: Let_def fsub_def split: prod.splits)
  from Cons.IH [OF zs] show ?case by (simp add: ys)
qed simp

lemma hp_loop_nan_sample:
  "FNan \<in> set xs \<Longrightarrow> hp_loop pr pf pk xs = (ys, pr', pf', pk') \<Longrightarrow> pf' = FNan"
proof (induction xs arbitrary: pr pf pk ys)
  case (Cons x xs)
  let ?f = "fmul alpha (fsub (fadd pf x) pr)"
  obtain zs where zs: "hp_loop x ?f (fmax pk (fabs ?f)) xs = (zs, pr', pf', pk')"
    using Cons.prems(2) by (auto simp: Let_def split: prod.splits)
  show ?case
  proof (cases "x = FNan")
    case True
    then show ?thesis using hp_loop_from_nan [of x "fmax pk (fabs ?f)" xs zs pr' pf' pk'] zs by simp
  next
    case False
    then show ?thesis using Cons.IH [OF _ zs] Cons.prems(1) by simp
  qed
qed simp

lemma process_nan_sample:
  assumes "FNan \<in> set pcm" and "process pcm pr pf = (out, pr', pf')"
  shows "pf' = FNan"
proof -
  obtain ys qr qf pk where h: "hp_loop pr pf (FNum 0) pcm = (ys, qr, qf, pk)" by (metis prod_cases4)
  from hp_loop_nan_sample [OF assms(1) h] assms(2) show ?thesis
    by (auto simp: process_def h Let_def split: if_splits)
qed

lemma process_from_nan:
  assumes "process pcm pr FNan = (out, pr', pf')"
  shows "set out \<subseteq> {FNan} \<and> pf' = FNan"
proof -
  obtain ys qr qf pk where h: "hp_loop pr FNan (FNum 0) pcm = (ys, qr, qf, pk)" by (metis prod_cases4)
  have "set ys \<subseteq> {FNan}" and pf: "qf = FNan" using hp_loop_from_nan [OF h] by simp_all
  then have "ys = replicate (length ys) FNan" by (auto intro!: replicate_eqI)
  then obtain n where ys: "ys = replicate n FNan" by blast
  from assms show ?thesis by (auto simp: process_def h pf ys Let_def split: if_splits)
qed

section \<open>Properties\<close>

section \<open>Properties\<close>

text \<open>C26: The normalisation does what its header says. A chunk whose peak after the filter is at most
  0.02 or at least 0.9, or that has an infinity, stays as it is. Any other chunk is multiplied by
  one gain from 1 to 4: when its peak is at most a quarter of 0.9 the gain is exactly 4 and the
  result exact, and otherwise the peak ends at 0.9, within a relative error of \<open>2^-23\<close> below and
  one unit in the last place above, so nothing clips.\<close>

theorem normalisation_reaches_target:
  "let ys = fst (hp_loop prev_raw prev_filtered (FNum 0) pcm);
       out = fst (process pcm prev_raw prev_filtered);
       p = mag_max ys
   in if list_ex is_inf ys \<or> p \<le> noise_rat \<or> target_rat \<le> p then out = ys
      else if 4 * p \<le> target_rat then out = map (\<lambda>s. fmul s (FNum 4)) ys \<and> mag_max out = 4 * p
      else (\<exists>g. 1 \<le> g \<and> g \<le> 4 \<and> out = map (\<lambda>s. fmul s (FNum g)) ys)
        \<and> target_rat * (1 - 1 / 2 ^ 23) \<le> mag_max out \<and> mag_max out \<le> norm_bound"
proof -
  obtain ys pr pf pk where h: "hp_loop prev_raw prev_filtered (FNum 0) pcm = (ys, pr, pf, pk)" by (metis prod_cases4)
  let ?p = "mag_max ys" and ?out = "fst (process pcm prev_raw prev_filtered)"
  have pk: "pk = (if list_ex is_inf ys then FInf False else FNum ?p)"
    using hp_loop_mag_max [OF h] by simp
  show ?thesis
  proof (cases "list_ex is_inf ys \<or> ?p \<le> noise_rat \<or> target_rat \<le> ?p")
    case True
    then have "\<not> (flt noise_floor pk \<and> flt pk target_peak)" by (auto simp: pk audio_consts)
    then have "?out = ys" by (auto simp: process_def h)
    with True show ?thesis by (simp add: h)
  next
    case False
    define g where "g = min (round_rat (target_rat / ?p)) 4"
    from False have b: "noise_rat < ?p" "?p < target_rat" "\<not> list_ex is_inf ys" by auto
    have out: "?out = map (\<lambda>s. fmul s (FNum g)) ys"
      using b gain_value [OF b(1,2)] by (simp add: process_def h pk audio_consts g_def Let_def)
    have q: "?p * (target_rat / ?p) = target_rat" "0 < ?p" using b(1) by simp_all
    show ?thesis
    proof (cases "4 * ?p \<le> target_rat")
      case True
      then have "4 \<le> round_rat (target_rat / ?p)"
        using q(2) repr32_of_int [of 4] by (intro round_rat_ge) (simp_all add: pos_le_divide_eq)
      then have g4: "g = 4" by (simp add: g_def)
      have "repr32 ?p"
      proof -
        have "repr32 (mag_max zs)" if "\<forall>y \<in> set zs. f_ok y" for zs
          using that by (induction zs rule: mag_max.induct) (auto simp: max_def repr32_abs)
        then show ?thesis using hp_loop_ok [of _ prev_raw prev_filtered "FNum 0" pcm] by (simp add: h)
      qed
      then have "round_rat (?p * 4) = 4 * ?p" using repr32_times_4 round_rat_repr by (metis mult.commute)
      moreover have "mag_max ?out = round_rat (?p * 4)"
        unfolding out g4 using b(2,3) repr32_of_int [of 4] by (intro mag_max_map [of _ _ 4]) simp_all
      ultimately show ?thesis using False True out g4 by (simp add: h)
    next
      case c: False
      then have le4: "target_rat / ?p \<le> 4" using q(2) by (simp add: pos_divide_le_eq)
      have ge1: "1 \<le> target_rat / ?p" using b(2) q(2) by (simp add: pos_le_divide_eq)
      have g: "g = round_rat (target_rat / ?p)" "1 \<le> g" "g \<le> 4"
        using round_rat_le [OF le4] round_rat_ge [OF ge1] repr32_of_int [of 4] repr32_of_int [of 1]
        by (simp_all add: g_def)
      have "?p * (target_rat / ?p * (1 - 1 / 2 ^ 24)) \<le> ?p * g"
        unfolding g(1) using round_lower [of "target_rat / ?p"] ge1 by (intro mult_left_mono) simp_all
      then have lo: "target_rat * (1 - 1 / 2 ^ 24) \<le> ?p * g" using q(1) by (simp only: mult.assoc [symmetric])
      have hi: "?p * g \<le> norm_bound"
        using gain_bounds [of ?p] gain_value [OF b(1,2)] b by (auto simp: audio_consts g_def)
      have m: "mag_max ?out = round_rat (?p * g)"
        unfolding out using hi g(2) repr32_norm_bound b(3) by (intro mag_max_map [of _ _ norm_bound]) simp_all
      have "target_rat * (1 - 1 / 2 ^ 23) \<le> target_rat * (1 - 1 / 2 ^ 24) * (1 - 1 / 2 ^ 24)" by simp
      also have "\<dots> \<le> ?p * g * (1 - 1 / 2 ^ 24)" by (rule mult_right_mono [OF lo]) simp
      also have "\<dots> \<le> round_rat (?p * g)" by (intro round_lower order_trans [OF _ lo]) simp
      finally have "target_rat * (1 - 1 / 2 ^ 23) \<le> mag_max ?out" using m by simp
      moreover have "mag_max ?out \<le> norm_bound" unfolding m by (rule round_rat_le [OF hi repr32_norm_bound])
      ultimately show ?thesis using False c out g by (auto simp: h)
    qed
  qed
qed

text \<open>A chunk of one sample of a half: its peak ends at 0.9.\<close>

theorem normalisation_reaches_target_witness:
  "target_rat * (1 - 1 / 2 ^ 23) \<le> mag_max (fst (process [FNum (1 / 2)] (FNum 0) (FNum 0)))"
proof -
  have r: "round_rat (1 / 2) = 1 / 2" "round_rat (8128561 / 16777216) = 8128561 / 16777216"
    using round_rat_repr [OF repr32_scaled [of 1 1]] round_rat_repr [OF repr32_scaled [of 8128561 24]] by simp_all
  have "fround (1 / 2) = FNum (1 / 2)" unfolding fround_def r by simp
  moreover have "fround (8128561 / 16777216) = FNum (8128561 / 16777216)" unfolding fround_def r by simp
  ultimately have "fst (hp_loop (FNum 0) (FNum 0) (FNum 0) [FNum (1 / 2)]) = [FNum (8128561 / 16777216)]"
    by (simp add: alpha_eq fsub_def Let_def)
  then show ?thesis using normalisation_reaches_target [of "FNum 0" "FNum 0" "[FNum (1 / 2)]"] by (simp add: Let_def)
qed

end
