(* ===== verification/Slots.thy ===== *)
theory Slots
  imports Prelude
begin

text \<open>
  The contract that the two limiters of the server share: a bounded pool of slots, from
  which a caller takes one without blocking and to which it gives back only what it holds.
  \<open>InferenceLimiter\<close> (one kind of slot) and \<open>ConnectionLimiter\<close> (slots counted per client
  address as well) are both instances, proved in their own theories.
\<close>

section \<open>A pool of slots\<close>

locale slot_pool =
  fixes acquire :: "'s \<Rightarrow> bool \<times> 's" and release :: "'s \<Rightarrow> 's"
    and active :: "'s \<Rightarrow> nat" and capacity :: "'s \<Rightarrow> nat"
    and holds :: "'s \<Rightarrow> bool" and invar :: "'s \<Rightarrow> bool"
  assumes granted: "invar s \<Longrightarrow> acquire s = (True, t) \<Longrightarrow>
      invar t \<and> active s < capacity s \<and> active t = active s + 1 \<and> holds t"
    and refused: "invar s \<Longrightarrow> acquire s = (False, t) \<Longrightarrow> invar t \<and> active t = active s"
    and released: "invar s \<Longrightarrow> holds s \<Longrightarrow> invar (release s) \<and> active s = active (release s) + 1"
    and capacity_acquire: "capacity (snd (acquire s)) = capacity s"
    and capacity_release: "capacity (release s) = capacity s"
begin

lemma acquire_within:
  assumes "invar s" and "active s \<le> capacity s" and "acquire s = (b, t)"
  shows "active t \<le> capacity t"
proof -
  have "capacity t = capacity s" using capacity_acquire [of s] assms(3) by simp
  then show ?thesis using assms granted [of s t] refused [of s t] by (cases b) auto
qed

lemma release_within:
  "invar s \<Longrightarrow> holds s \<Longrightarrow> active s \<le> capacity s \<Longrightarrow> active (release s) \<le> capacity (release s)"
  using released [of s] by (simp add: capacity_release)

text \<open>
  Scoped use: whatever happens between a granted acquire and the release, if it leaves the
  number of slots in use as it was, then so does the whole scope.
\<close>

lemma scope_balanced:
  assumes "invar s" and "acquire s = (True, t)"
    and "invar u" and "active u = active t" and "holds u"
  shows "active (release u) = active s"
  using granted [OF assms(1,2)] released [OF assms(3,5)] assms(4) by simp

lemma scope_exact:
  assumes "invar s" and "acquire s = (True, t)"
  shows "active (release t) = active s"
  using assms granted [OF assms] by (intro scope_balanced [OF assms]) auto

lemma refused_at_capacity: "invar s \<Longrightarrow> capacity s \<le> active s \<Longrightarrow> \<not> fst (acquire s)"
  using granted [of s "snd (acquire s)"] by (cases "acquire s") auto

end

section \<open>Slots counted per key\<close>

locale keyed_pool =
  fixes acq :: "'k \<Rightarrow> 's \<Rightarrow> bool \<times> 's" and rel :: "'k \<Rightarrow> 's \<Rightarrow> 's"
    and total :: "'s \<Rightarrow> nat" and count :: "'s \<Rightarrow> 'k \<Rightarrow> nat"
    and cap :: "'s \<Rightarrow> nat" and key_cap :: "'s \<Rightarrow> nat" and invar :: "'s \<Rightarrow> bool"
  assumes acq_result: "invar s \<Longrightarrow> fst (acq k s) = (total s < cap s \<and> count s k < key_cap s)"
    and acq_state: "invar s \<Longrightarrow> acq k s = (b, t) \<Longrightarrow> invar t
      \<and> total t = total s + of_bool b \<and> count t = (count s)(k := count s k + of_bool b)"
    and rel_state: "invar s \<Longrightarrow> 0 < count s k \<Longrightarrow> invar (rel k s)
      \<and> total s = total (rel k s) + 1 \<and> count (rel k s) = (count s)(k := count s k - 1)"
    and caps: "cap (snd (acq k s)) = cap s" "key_cap (snd (acq k s)) = key_cap s"
      "cap (rel k s) = cap s" "key_cap (rel k s) = key_cap s"
begin

lemma acq_other: "invar s \<Longrightarrow> k' \<noteq> k \<Longrightarrow> count (snd (acq k s)) k' = count s k'"
  using acq_state [of s k] by (cases "acq k s") auto

lemma acq_key_within:
  assumes "invar s" and "\<forall>j. count s j \<le> key_cap s"
  shows "\<forall>j. count (snd (acq k s)) j \<le> key_cap (snd (acq k s))"
proof -
  obtain b t where a: "acq k s = (b, t)" by fastforce
  have "b \<Longrightarrow> count s k < key_cap s" using acq_result [OF assms(1), of k] a by simp
  moreover have "key_cap t = key_cap s" using caps(2) [of k s] a by simp
  ultimately show ?thesis using acq_state [OF assms(1) a] assms(2) by (auto simp: a)
qed

text \<open>An acquire that is granted, then released, leaves every counter as it was.\<close>

lemma acq_rel_counts:
  assumes "invar s" and "acq k s = (True, t)"
  shows "count (rel k t) = count s \<and> total (rel k t) = total s"
  using acq_state [OF assms] rel_state [of t k] by auto

end

text \<open>For each key, a keyed pool is a pool of slots.\<close>

sublocale keyed_pool \<subseteq> pool: slot_pool "acq k" "rel k" total cap "\<lambda>s. 0 < count s k" invar
  for k
proof
  fix s t assume i: "invar s" and a: "acq k s = (True, t)"
  show "invar t \<and> total s < cap s \<and> total t = total s + 1 \<and> 0 < count t k"
    using acq_state [OF i a] acq_result [OF i, of k] a by simp
next
  fix s t assume i: "invar s" and a: "acq k s = (False, t)"
  show "invar t \<and> total t = total s" using acq_state [OF i a] by simp
qed (use rel_state caps in auto)

end
