(* ===== verification/Inference_Limiter.thy ===== *)
theory Inference_Limiter
  imports Slots
begin

text \<open>
  \<open>src/whisper/InferenceLimiter.h\<close>: the semaphore around the decoder. First the operations
  on the two counters (each runs under the mutex), then the threads that use them: callers
  of the blocking \<open>acquire()\<close> wait on the condition variable, \<open>release()\<close> wakes one of
  them, \<open>setMaxConcurrency()\<close> wakes all, and a waiter that wakes up checks again.
\<close>

section \<open>The counters\<close>

record inference_limiter =
  active_count :: int
  max_concurrent :: int

definition new_inference_limiter :: inference_limiter where
  "new_inference_limiter = \<lparr>active_count = 0, max_concurrent = 4\<rparr>"

definition setMaxConcurrency :: "int \<Rightarrow> inference_limiter \<Rightarrow> inference_limiter" where
  "setMaxConcurrency m l = (if 0 < m then l\<lparr>max_concurrent := m\<rparr> else l)"

definition hasCapacity :: "inference_limiter \<Rightarrow> bool" where
  "hasCapacity l = (active_count l < max_concurrent l)"

definition inf_try_acquire :: "inference_limiter \<Rightarrow> bool \<times> inference_limiter" where
  "inf_try_acquire l =
     (if active_count l < max_concurrent l then (True, l\<lparr>active_count := active_count l + 1\<rparr>)
      else (False, l))"

text \<open>
  \<open>acquire()\<close>: \<open>None\<close> while the wait condition is false (the caller stays blocked), the
  state after the call when it is true.
\<close>

definition inf_acquire :: "inference_limiter \<Rightarrow> inference_limiter option" where
  "inf_acquire l =
     (if active_count l < max_concurrent l then Some (l\<lparr>active_count := active_count l + 1\<rparr>)
      else None)"

definition inf_release :: "inference_limiter \<Rightarrow> inference_limiter" where
  "inf_release l = (if 0 < active_count l then l\<lparr>active_count := active_count l - 1\<rparr> else l)"

definition inf_getMetrics :: "inference_limiter \<Rightarrow> string" where
  "inf_getMetrics l =
     ''transcription_active_inferences '' @ to_string_int (active_count l) @ [CHR 0x0A] @
     ''transcription_max_inferences '' @ to_string_int (max_concurrent l) @ [CHR 0x0A]"

definition inf_ok :: "inference_limiter \<Rightarrow> bool" where
  "inf_ok l \<longleftrightarrow> 0 \<le> active_count l \<and> 0 < max_concurrent l"

lemmas inf_defs = hasCapacity_def inf_try_acquire_def inf_acquire_def inf_release_def
  setMaxConcurrency_def inf_ok_def

interpretation infer: slot_pool inf_try_acquire inf_release
  "\<lambda>l. nat (active_count l)" "\<lambda>l. nat (max_concurrent l)" "\<lambda>l. 0 < active_count l" inf_ok
  by unfold_locales (auto simp: inf_defs split: if_splits)

section \<open>The waiting threads\<close>

datatype pc =
    Idle
  | Blocked \<comment> \<open>in \<open>cv_.wait\<close>, not notified\<close>
  | Woken   \<comment> \<open>notified or woken spuriously, about to check the condition again\<close>
  | Holding \<comment> \<open>owns a slot\<close>

record lim_sys =
  lim :: inference_limiter
  pcs :: "nat \<Rightarrow> pc"

definition init_lim_sys :: lim_sys where
  "init_lim_sys = \<lparr>lim = new_inference_limiter, pcs = (\<lambda>_. Idle)\<rparr>"

inductive lim_step :: "lim_sys \<Rightarrow> lim_sys \<Rightarrow> bool" where
  acquire_now: "\<lbrakk>pcs s t = Idle; inf_acquire (lim s) = Some l\<rbrakk> \<Longrightarrow>
     lim_step s (s\<lparr>lim := l, pcs := (pcs s)(t := Holding)\<rparr>)"
| acquire_wait: "\<lbrakk>pcs s t = Idle; inf_acquire (lim s) = None\<rbrakk> \<Longrightarrow>
     lim_step s (s\<lparr>pcs := (pcs s)(t := Blocked)\<rparr>)"
| spurious: "pcs s t = Blocked \<Longrightarrow> lim_step s (s\<lparr>pcs := (pcs s)(t := Woken)\<rparr>)"
| recheck_ok: "\<lbrakk>pcs s t = Woken; inf_acquire (lim s) = Some l\<rbrakk> \<Longrightarrow>
     lim_step s (s\<lparr>lim := l, pcs := (pcs s)(t := Holding)\<rparr>)"
| recheck_wait: "\<lbrakk>pcs s t = Woken; inf_acquire (lim s) = None\<rbrakk> \<Longrightarrow>
     lim_step s (s\<lparr>pcs := (pcs s)(t := Blocked)\<rparr>)"
| try_ok: "\<lbrakk>pcs s t = Idle; inf_try_acquire (lim s) = (True, l)\<rbrakk> \<Longrightarrow>
     lim_step s (s\<lparr>lim := l, pcs := (pcs s)(t := Holding)\<rparr>)"
| release_one: "\<lbrakk>pcs s t = Holding; pcs s w = Blocked\<rbrakk> \<Longrightarrow>
     lim_step s (s\<lparr>lim := inf_release (lim s), pcs := (pcs s)(t := Idle, w := Woken)\<rparr>)"
| release_none: "\<lbrakk>pcs s t = Holding; \<forall>w. pcs s w \<noteq> Blocked\<rbrakk> \<Longrightarrow>
     lim_step s (s\<lparr>lim := inf_release (lim s), pcs := (pcs s)(t := Idle)\<rparr>)"
| set_max: "0 < m \<Longrightarrow> lim_step s (s\<lparr>lim := setMaxConcurrency m (lim s),
     pcs := (\<lambda>t. if pcs s t = Blocked then Woken else pcs s t)\<rparr>)"
| set_max_ignored: "\<not> 0 < m \<Longrightarrow> lim_step s (s\<lparr>lim := setMaxConcurrency m (lim s)\<rparr>)"

inductive lim_reachable :: "lim_sys \<Rightarrow> bool" where
  start: "lim_reachable init_lim_sys"
| step: "lim_reachable s \<Longrightarrow> lim_step s s' \<Longrightarrow> lim_reachable s'"

definition at_pc :: "(nat \<Rightarrow> pc) \<Rightarrow> pc \<Rightarrow> nat set" where
  "at_pc f p = {t. f t = p}"

text \<open>
  The invariant: the counter is the number of holders, and no wake-up is lost. While a
  thread is blocked, every slot that is not in use has been announced to a woken thread.
\<close>

definition lim_inv :: "lim_sys \<Rightarrow> bool" where
  "lim_inv s \<longleftrightarrow> finite {t. pcs s t \<noteq> Idle}
     \<and> active_count (lim s) = int (card (at_pc (pcs s) Holding)) \<and> 0 < max_concurrent (lim s)
     \<and> (at_pc (pcs s) Blocked \<noteq> {} \<longrightarrow>
          max_concurrent (lim s) \<le> active_count (lim s) + int (card (at_pc (pcs s) Woken)))"

lemma at_pc_finite: "finite {t. f t \<noteq> Idle} \<Longrightarrow> p \<noteq> Idle \<Longrightarrow> finite (at_pc f p)"
  by (rule finite_subset [of _ "{t. f t \<noteq> Idle}"]) (auto simp: at_pc_def)

lemma finite_non_idle_upd: "finite {t. f t \<noteq> Idle} \<Longrightarrow> finite {u. (f(t := q)) u \<noteq> Idle}"
  by (rule finite_subset [of _ "insert t {t. f t \<noteq> Idle}"]) auto

text \<open>One thread moves from \<open>q0\<close> to \<open>q\<close>: the number of threads at each place.\<close>

lemma card_at_pc_upd:
  assumes "finite {t. f t \<noteq> Idle}" and "p \<noteq> Idle" and "f t = q0" and "q0 \<noteq> q"
  shows "int (card (at_pc (f(t := q)) p)) = int (card (at_pc f p)) + of_bool (p = q) - of_bool (p = q0)"
proof -
  have fin: "finite (at_pc f p)" using assms(1,2) by (rule at_pc_finite)
  have mem: "t \<in> at_pc f p \<longleftrightarrow> p = q0" using assms(3) by (auto simp: at_pc_def)
  have "at_pc (f(t := q)) p = (if p = q then insert t (at_pc f p) else at_pc f p - {t})"
    by (auto simp: at_pc_def)
  then consider "p = q" "at_pc (f(t := q)) p = insert t (at_pc f p)"
    | "p \<noteq> q" "at_pc (f(t := q)) p = at_pc f p - {t}" by (metis (full_types))
  then show ?thesis
  proof cases
    case 1
    with fin mem assms(4) show ?thesis by auto
  next
    case 2
    show ?thesis
    proof (cases "p = q0")
      case True
      then have "card (at_pc f p) = Suc (card (at_pc f p - {t}))"
        using fin mem by (metis card_Suc_Diff1)
      with 2 True assms(4) show ?thesis by simp
    next
      case False
      with 2 mem show ?thesis by simp
    qed
  qed
qed

lemma at_pc_upd_Blocked: "q \<noteq> Blocked \<Longrightarrow> at_pc (f(t := q)) Blocked \<noteq> {} \<Longrightarrow> at_pc f Blocked \<noteq> {}"
  by (auto simp: at_pc_def split: if_splits)

lemma inf_acquire_Some:
  "inf_acquire l = Some l' \<longleftrightarrow>
     active_count l < max_concurrent l \<and> l' = l\<lparr>active_count := active_count l + 1\<rparr>"
  by (auto simp: inf_acquire_def)

lemma inf_acquire_None: "inf_acquire l = None \<longleftrightarrow> max_concurrent l \<le> active_count l"
  by (auto simp: inf_acquire_def)

lemma inf_try_acquire_True:
  "inf_try_acquire l = (True, l') \<longleftrightarrow>
     active_count l < max_concurrent l \<and> l' = l\<lparr>active_count := active_count l + 1\<rparr>"
  by (auto simp: inf_try_acquire_def)

lemma take_slot_inv:
  assumes "lim_inv s" and "pcs s t = q" and "q = Idle \<or> q = Woken"
    and "active_count (lim s) < max_concurrent (lim s)"
  shows "lim_inv (s\<lparr>lim := (lim s)\<lparr>active_count := active_count (lim s) + 1\<rparr>,
    pcs := (pcs s)(t := Holding)\<rparr>)"
proof -
  have fin: "finite {t. pcs s t \<noteq> Idle}" using assms(1) by (simp add: lim_inv_def)
  have q: "q \<noteq> Holding" "q \<noteq> Blocked" using assms(3) by auto
  have c: "p \<noteq> Idle \<Longrightarrow> int (card (at_pc ((pcs s)(t := Holding)) p))
      = int (card (at_pc (pcs s) p)) + of_bool (p = Holding) - of_bool (p = q)" for p
    using card_at_pc_upd [OF fin _ assms(2) q(1)] by simp
  show ?thesis
    using assms(1) q at_pc_upd_Blocked [of Holding "pcs s" t] finite_non_idle_upd [OF fin, of t Holding]
    by (auto simp: lim_inv_def c simp del: fun_upd_apply)
qed

lemma wait_inv:
  assumes "lim_inv s" and "pcs s t = q" and "q = Idle \<or> q = Woken"
    and "max_concurrent (lim s) \<le> active_count (lim s)"
  shows "lim_inv (s\<lparr>pcs := (pcs s)(t := Blocked)\<rparr>)"
proof -
  have fin: "finite {t. pcs s t \<noteq> Idle}" using assms(1) by (simp add: lim_inv_def)
  have q: "q \<noteq> Holding" "q \<noteq> Blocked" using assms(3) by auto
  have "int (card (at_pc ((pcs s)(t := Blocked)) Holding)) = int (card (at_pc (pcs s) Holding))"
    using card_at_pc_upd [OF fin _ assms(2) q(2), of Holding] q by simp
  then show ?thesis
    using assms(1,4) finite_non_idle_upd [OF fin, of t Blocked]
    by (auto simp: lim_inv_def simp del: fun_upd_apply)
qed

lemma wake_inv:
  assumes "lim_inv s" and "pcs s t = Blocked"
  shows "lim_inv (s\<lparr>pcs := (pcs s)(t := Woken)\<rparr>)"
proof -
  have fin: "finite {t. pcs s t \<noteq> Idle}" using assms(1) by (simp add: lim_inv_def)
  have c: "p \<noteq> Idle \<Longrightarrow> int (card (at_pc ((pcs s)(t := Woken)) p))
      = int (card (at_pc (pcs s) p)) + of_bool (p = Woken) - of_bool (p = Blocked)" for p
    using card_at_pc_upd [OF fin _ assms(2)] by simp
  have "at_pc (pcs s) Blocked \<noteq> {}" using assms(2) by (auto simp: at_pc_def)
  then show ?thesis
    using assms(1) finite_non_idle_upd [OF fin, of t Woken]
    by (auto simp: lim_inv_def c simp del: fun_upd_apply)
qed

text \<open>Giving back a slot, before the notification: the weaker half of the invariant.\<close>

lemma give_back:
  assumes "lim_inv s" and "pcs s t = Holding"
  shows "finite {u. ((pcs s)(t := Idle)) u \<noteq> Idle}"
    and "active_count (inf_release (lim s)) = int (card (at_pc ((pcs s)(t := Idle)) Holding))"
    and "active_count (inf_release (lim s)) = active_count (lim s) - 1"
    and "card (at_pc ((pcs s)(t := Idle)) Woken) = card (at_pc (pcs s) Woken)"
    and "max_concurrent (inf_release (lim s)) = max_concurrent (lim s)"
proof -
  have fin: "finite {t. pcs s t \<noteq> Idle}" using assms(1) by (simp add: lim_inv_def)
  have c: "p \<noteq> Idle \<Longrightarrow> int (card (at_pc ((pcs s)(t := Idle)) p))
      = int (card (at_pc (pcs s) p)) - of_bool (p = Holding)" for p
    using card_at_pc_upd [OF fin _ assms(2), of p Idle] by simp
  have "at_pc (pcs s) Holding \<noteq> {}" using assms(2) by (auto simp: at_pc_def)
  then have "0 < card (at_pc (pcs s) Holding)" using at_pc_finite [OF fin] by (simp add: card_gt_0_iff)
  then have a: "0 < active_count (lim s)" using assms(1) by (simp add: lim_inv_def)
  show "finite {u. ((pcs s)(t := Idle)) u \<noteq> Idle}" using fin by (rule finite_non_idle_upd)
  show "active_count (inf_release (lim s)) = active_count (lim s) - 1"
    and "max_concurrent (inf_release (lim s)) = max_concurrent (lim s)"
    using a by (simp_all add: inf_release_def)
  show "active_count (inf_release (lim s)) = int (card (at_pc ((pcs s)(t := Idle)) Holding))"
    using a assms(1) c [of Holding] by (simp add: inf_release_def lim_inv_def)
  show "card (at_pc ((pcs s)(t := Idle)) Woken) = card (at_pc (pcs s) Woken)"
    using c [of Woken] by simp
qed

lemma release_one_inv:
  assumes "lim_inv s" and "pcs s t = Holding" and "pcs s w = Blocked"
  shows "lim_inv (s\<lparr>lim := inf_release (lim s), pcs := (pcs s)(t := Idle, w := Woken)\<rparr>)"
proof -
  let ?f = "(pcs s)(t := Idle)"
  note g = give_back [OF assms(1,2)]
  have w: "?f w = Blocked" using assms(2,3) by auto
  have c: "p \<noteq> Idle \<Longrightarrow> int (card (at_pc (?f(w := Woken)) p))
      = int (card (at_pc ?f p)) + of_bool (p = Woken) - of_bool (p = Blocked)" for p
    by (rule card_at_pc_upd [OF g(1) _ w]) simp_all
  have "at_pc (pcs s) Blocked \<noteq> {}" using assms(3) by (auto simp: at_pc_def)
  then show ?thesis
    using assms(1) g finite_non_idle_upd [OF g(1), of w Woken]
    by (auto simp: lim_inv_def c simp del: fun_upd_apply)
qed

lemma release_none_inv:
  assumes "lim_inv s" and "pcs s t = Holding" and "\<forall>w. pcs s w \<noteq> Blocked"
  shows "lim_inv (s\<lparr>lim := inf_release (lim s), pcs := (pcs s)(t := Idle)\<rparr>)"
proof -
  note g = give_back [OF assms(1,2)]
  have "at_pc ((pcs s)(t := Idle)) Blocked = {}" using assms(3) by (auto simp: at_pc_def)
  then show ?thesis using assms(1) g by (simp add: lim_inv_def del: fun_upd_apply)
qed

lemma set_max_inv:
  assumes "lim_inv s" and "0 < m"
  shows "lim_inv (s\<lparr>lim := setMaxConcurrency m (lim s),
     pcs := (\<lambda>t. if pcs s t = Blocked then Woken else pcs s t)\<rparr>)"
proof -
  let ?g = "\<lambda>t. if pcs s t = Blocked then Woken else pcs s t"
  have "at_pc ?g Blocked = {}" "at_pc ?g Holding = at_pc (pcs s) Holding"
    "{t. ?g t \<noteq> Idle} = {t. pcs s t \<noteq> Idle}" by (auto simp: at_pc_def)
  then show ?thesis using assms by (simp add: lim_inv_def setMaxConcurrency_def)
qed

lemma lim_inv_init: "lim_inv init_lim_sys"
  by (simp add: lim_inv_def init_lim_sys_def new_inference_limiter_def at_pc_def)

lemma lim_step_inv: "lim_step s s' \<Longrightarrow> lim_inv s \<Longrightarrow> lim_inv s'"
proof (induction rule: lim_step.induct)
  case (set_max_ignored m s)
  then show ?case by (simp add: setMaxConcurrency_def)
qed (auto simp: inf_acquire_Some inf_acquire_None inf_try_acquire_True
      intro: take_slot_inv wait_inv wake_inv release_one_inv release_none_inv set_max_inv)

lemma lim_reachable_inv: "lim_reachable s \<Longrightarrow> lim_inv s"
  by (induction rule: lim_reachable.induct) (auto intro: lim_inv_init lim_step_inv)

section \<open>Properties\<close>

lemma lim_step_within:
  assumes "lim_step s s'" and "active_count (lim s) \<le> max_concurrent (lim s)"
    and "max_concurrent (lim s) \<le> max_concurrent (lim s')"
  shows "active_count (lim s') \<le> max_concurrent (lim s')"
  using assms
  by (induction rule: lim_step.induct)
    (auto simp: inf_acquire_Some inf_try_acquire_True inf_release_def setMaxConcurrency_def)

text \<open>C17: No wake-up is lost: whenever a caller is blocked in \<open>acquire()\<close> although a slot is free,
  some other caller has been notified and is about to check the condition.\<close>

theorem no_lost_wakeup:
  assumes "lim_reachable s" and "pcs s t = Blocked" and "hasCapacity (lim s)"
  shows "\<exists>w. pcs s w = Woken"
proof -
  have "at_pc (pcs s) Blocked \<noteq> {}" using assms(2) by (auto simp: at_pc_def)
  then have "0 < card (at_pc (pcs s) Woken)"
    using lim_reachable_inv [OF assms(1)] assms(3) by (simp add: lim_inv_def hasCapacity_def)
  then show ?thesis by (auto simp: card_gt_0_iff at_pc_def)
qed

definition two_waiting :: lim_sys where
  "two_waiting = \<lparr>lim = \<lparr>active_count = 0, max_concurrent = 1\<rparr>,
     pcs = (\<lambda>_. Idle)(1 := Woken, 2 := Blocked)\<rparr>"

lemma two_waiting_reachable: "lim_reachable two_waiting"
proof -
  let ?i = "\<lambda>a. \<lparr>active_count = a, max_concurrent = 1\<rparr>"
  let ?f0 = "\<lambda>_::nat. Idle"
  have s1: "lim_reachable \<lparr>lim = ?i 0, pcs = ?f0\<rparr>"
    using lim_reachable.step [OF lim_reachable.start set_max [of 1 init_lim_sys]]
    by (simp add: init_lim_sys_def new_inference_limiter_def setMaxConcurrency_def)
  have s2: "lim_reachable \<lparr>lim = ?i 1, pcs = ?f0(0 := Holding)\<rparr>"
    using lim_reachable.step [OF s1 acquire_now [of _ 0 "?i 1"]] by (simp add: inf_acquire_def)
  have s3: "lim_reachable \<lparr>lim = ?i 1, pcs = ?f0(0 := Holding, 1 := Blocked)\<rparr>"
    using lim_reachable.step [OF s2 acquire_wait [of _ 1]] by (simp add: inf_acquire_def)
  have s4: "lim_reachable \<lparr>lim = ?i 1, pcs = ?f0(0 := Holding, 1 := Blocked, 2 := Blocked)\<rparr>"
    using lim_reachable.step [OF s3 acquire_wait [of _ 2]] by (simp add: inf_acquire_def)
  have s5: "lim_reachable \<lparr>lim = ?i 0, pcs = ?f0(0 := Holding, 1 := Blocked, 2 := Blocked, 0 := Idle, 1 := Woken)\<rparr>"
    using lim_reachable.step [OF s4 release_one [of _ 0 1]] by (simp add: inf_release_def)
  have "?f0(0 := Holding, 1 := Blocked, 2 := Blocked, 0 := Idle, 1 := Woken)
      = (\<lambda>_. Idle)(1 := Woken, 2 := Blocked)" by (auto simp: fun_eq_iff)
  with s5 show ?thesis by (simp add: two_waiting_def)
qed

theorem no_lost_wakeup_witness: "\<exists>w. pcs two_waiting w = Woken"
  by (rule no_lost_wakeup [OF two_waiting_reachable, of 2])
    (simp_all add: two_waiting_def hasCapacity_def)

text \<open>The counter of the limiter is the number of threads that hold a slot, and no step takes
  that number above the limit unless it lowers the limit itself.\<close>

theorem slots_counted_and_bounded:
  assumes "lim_reachable s" and "lim_step s s'"
    and "card (at_pc (pcs s) Holding) \<le> nat (max_concurrent (lim s))"
    and "max_concurrent (lim s) \<le> max_concurrent (lim s')"
  shows "active_count (lim s') = int (card (at_pc (pcs s') Holding))
    \<and> card (at_pc (pcs s') Holding) \<le> nat (max_concurrent (lim s'))"
proof -
  have i: "lim_inv s" using assms(1) by (rule lim_reachable_inv)
  have i': "lim_inv s'" using assms(2) i by (rule lim_step_inv)
  have "active_count (lim s) \<le> max_concurrent (lim s)" using i assms(3) unfolding lim_inv_def by linarith
  then have "active_count (lim s') \<le> max_concurrent (lim s')"
    by (rule lim_step_within [OF assms(2) _ assms(4)])
  with i' show ?thesis unfolding lim_inv_def by linarith
qed

definition one_holding :: lim_sys where
  "one_holding = \<lparr>lim = \<lparr>active_count = 1, max_concurrent = 4\<rparr>, pcs = (\<lambda>_. Idle)(0 := Holding)\<rparr>"

theorem slots_counted_and_bounded_witness:
  "active_count (lim one_holding) = int (card (at_pc (pcs one_holding) Holding))
    \<and> card (at_pc (pcs one_holding) Holding) \<le> nat (max_concurrent (lim one_holding))"
proof (rule slots_counted_and_bounded [OF lim_reachable.start])
  show "lim_step init_lim_sys one_holding"
    using acquire_now [of init_lim_sys 0 "\<lparr>active_count = 1, max_concurrent = 4\<rparr>"]
    by (simp add: init_lim_sys_def one_holding_def new_inference_limiter_def inf_acquire_def)
qed (simp_all add: init_lim_sys_def one_holding_def new_inference_limiter_def at_pc_def)

end
