(* ===== verification/Engine.thy ===== *)
theory Engine
  imports Audio Inference_Limiter
begin

text \<open>
  \<open>src/whisper/StreamingWhisperEngine.cpp\<close>: the audio buffer of a session, the sliding
  window over it and the commit of finished segments. The decoder
  (\<open>whisper_full_with_state\<close> and the accessors of its result) is a parameter: a function
  from the parameters and the samples it is called with to a return code, the segments
  (end time in units of 10 ms, text) and the detected language. Each public method holds
  \<open>buffer_mutex_\<close>, so each is one step.
\<close>

section \<open>State and parameters\<close>

datatype strategy = Greedy | Beam_Search

record whisper_params =
  wp_strategy :: strategy
  wp_language :: string
  wp_n_threads :: int
  wp_print_progress :: bool
  wp_print_timestamps :: bool
  wp_print_realtime :: bool
  wp_print_special :: bool
  wp_translate :: bool
  wp_single_segment :: bool
  wp_no_context :: bool
  wp_suppress_blank :: bool
  wp_suppress_nst :: bool
  wp_beam_size :: "int option" \<comment> \<open>\<open>None\<close>: the library's default\<close>
  wp_temperature :: float32
  wp_temperature_inc :: float32
  wp_no_speech_thold :: float32
  wp_logprob_thold :: float32
  wp_audio_ctx :: int
  wp_initial_prompt :: "string option"

type_synonym segment = "int \<times> string option" \<comment> \<open>end time, text (\<open>None\<close>: a null pointer)\<close>

record whisper_out =
  wo_code :: int
  wo_segments :: "segment list"
  wo_lang :: "string option"

type_synonym whisper = "whisper_params \<Rightarrow> float32 list \<Rightarrow> whisper_out"

record engine =
  eng_ctx :: nat
  language :: string
  initial_prompt :: string
  n_threads :: int
  beam_size :: int
  vad_thold :: float32
  temperature :: float32
  temperature_inc :: float32
  no_speech_thold :: float32
  logprob_thold :: float32
  max_buffer_samples :: nat
  audio_buffer :: "float32 list"
  hp_prev_raw :: float32
  hp_prev_filtered :: float32

record transcribe_result =
  partial_text :: string
  committed_text :: string

abbreviation HIGH_WATER_MARK :: nat where "HIGH_WATER_MARK \<equiv> 16000 * 20"
abbreviation MAX_BUFFER :: nat where "MAX_BUFFER \<equiv> 16000 * 30"
abbreviation MAX_WINDOW :: nat where "MAX_WINDOW \<equiv> 16000 * 10"

text \<open>The constructor throws on a null context and when no decoder state can be created.\<close>

definition new_engine :: "(nat \<Rightarrow> bool) \<Rightarrow> nat option \<Rightarrow> engine result" where
  "new_engine init_state shared_ctx = (case shared_ctx of
       None \<Rightarrow> Inl (Runtime_Error ''[StreamingWhisperEngine] Null whisper context'')
     | Some c \<Rightarrow>
         if \<not> init_state c
         then Inl (Runtime_Error ''[StreamingWhisperEngine] Failed to create whisper state'')
         else Inr \<lparr>eng_ctx = c, language = ''es'', initial_prompt = [], n_threads = 4, beam_size = 5,
                vad_thold = FNum 0, temperature = fround (2 / 10), temperature_inc = fround (2 / 10),
                no_speech_thold = fround (3 / 10), logprob_thold = FNum (- 1),
                max_buffer_samples = MAX_BUFFER, audio_buffer = [],
                hp_prev_raw = FNum 0, hp_prev_filtered = FNum 0\<rparr>)"

section \<open>Adding audio\<close>

definition processAudioChunk :: "float32 list \<Rightarrow> engine \<Rightarrow> bool \<times> engine" where
  "processAudioChunk pcm e =
     (if HIGH_WATER_MARK \<le> length (audio_buffer e) then (True, e)
      else let (prepped, pr, pf) = process pcm (hp_prev_raw e) (hp_prev_filtered e);
               e1 = e\<lparr>hp_prev_raw := pr, hp_prev_filtered := pf\<rparr>;
               new_total = length (audio_buffer e1) + length prepped
           in if max_buffer_samples e1 < new_total then
                (if max_buffer_samples e1 \<le> length prepped
                 then (False, e1\<lparr>audio_buffer := drop (length prepped - max_buffer_samples e1) prepped\<rparr>)
                 else let to_discard = new_total - max_buffer_samples e1
                      in (False, e1\<lparr>audio_buffer := drop to_discard (audio_buffer e1) @ prepped\<rparr>))
              else (False, e1\<lparr>audio_buffer := audio_buffer e1 @ prepped\<rparr>))"

text \<open>
  Where memory may run out while a chunk is handled: when its frame is decoded (outside the
  engine), when the engine copies it, and when the copy is appended, after the filter has
  changed its state and the samples to discard are gone. \<open>push_chunk\<close> is \<open>processAudioChunk\<close> with
  such a fault.
\<close>

datatype audio_fault = No_Fault | Frame_Fault | Copy_Fault | Append_Fault

definition append_fails :: "float32 list \<Rightarrow> engine \<Rightarrow> engine" where
  "append_fails pcm e =
     (let (prepped, pr, pf) = process pcm (hp_prev_raw e) (hp_prev_filtered e)
      in e\<lparr>hp_prev_raw := pr, hp_prev_filtered := pf,
           audio_buffer := drop (length (audio_buffer e) + length prepped - max_buffer_samples e) (audio_buffer e)\<rparr>)"

definition push_chunk :: "audio_fault \<Rightarrow> float32 list \<Rightarrow> engine \<Rightarrow> bool result \<times> engine" where
  "push_chunk f pcm e =
     (if HIGH_WATER_MARK \<le> length (audio_buffer e) then (Inr True, e)
      else if f = Copy_Fault then (Inl Bad_Alloc, e)
      else if f = Append_Fault then (Inl Bad_Alloc, append_fails pcm e)
      else (let (overflow, e') = processAudioChunk pcm e in (Inr overflow, e')))"

section \<open>The sliding window\<close>

text \<open>The number of encoder tokens for \<open>n\<close> samples: 50 per second, at least 64.\<close>

definition audio_ctx :: "nat \<Rightarrow> int" where
  "audio_ctx n = max (f_to_int (fceil (fmul (fdiv (f_of_nat n) (FNum 16000)) (FNum 50)))) 64"

definition mk_params :: "engine \<Rightarrow> whisper_params" where
  "mk_params e =
     \<lparr>wp_strategy = (if 1 < beam_size e then Beam_Search else Greedy),
      wp_language = language e, wp_n_threads = n_threads e,
      wp_print_progress = False, wp_print_timestamps = False, wp_print_realtime = False,
      wp_print_special = False, wp_translate = False, wp_single_segment = False,
      wp_no_context = True, wp_suppress_blank = True, wp_suppress_nst = True,
      wp_beam_size = (if 1 < beam_size e then Some (beam_size e) else None),
      wp_temperature = temperature e, wp_temperature_inc = temperature_inc e,
      wp_no_speech_thold = (if flt (FNum 0) (vad_thold e) then vad_thold e else no_speech_thold e),
      wp_logprob_thold = logprob_thold e,
      wp_audio_ctx = audio_ctx (length (audio_buffer e)),
      wp_initial_prompt = (if initial_prompt e \<noteq> [] then Some (initial_prompt e) else None)\<rparr>"

text \<open>With the language \<open>auto\<close>, the first language detected is kept from then on.\<close>

definition lock_language :: "string option \<Rightarrow> engine \<Rightarrow> engine" where
  "lock_language detected e =
     (if language e = ''auto'' then
        (case detected of
           Some d \<Rightarrow> if d \<noteq> ''auto'' then e\<lparr>language := d\<rparr> else e
         | None \<Rightarrow> e)
      else e)"

text \<open>The search for the last segment, from the end, that ends before a time.\<close>

fun find_commit :: "int \<Rightarrow> segment list \<Rightarrow> nat \<Rightarrow> nat option" where
  "find_commit bound segs 0 = None"
| "find_commit bound segs (Suc i) =
     (if fst (segs ! i) < bound then Some i else find_commit bound segs i)"

text \<open>
  The index of the last segment to commit (-1: none) and \<open>commit_t1\<close>. The division is on
  a non-negative number, as the window holds at least ten seconds there.
\<close>

definition commit_decision :: "bool \<Rightarrow> nat \<Rightarrow> segment list \<Rightarrow> int \<times> int" where
  "commit_decision force n segs =
     (let k = int (length segs) in
      if force \<or> MAX_WINDOW \<le> n then
        (if force then (k - 1, 0)
         else let overlap_bounds_t = (int n - 32000) div 160
              in case find_commit overlap_bounds_t segs (length segs) of
                   Some i \<Rightarrow> (int i, fst (segs ! i))
                 | None \<Rightarrow> if 1 < k then (k - 2, fst (segs ! nat (k - 2))) else (- 1, 0))
      else (- 1, 0))"

definition segs_text :: "segment list \<Rightarrow> string" where
  "segs_text segs = concat (map (\<lambda>(t1, text). case text of None \<Rightarrow> [] | Some s \<Rightarrow> s) segs)"

definition drop_committed :: "bool \<Rightarrow> int \<Rightarrow> float32 list \<Rightarrow> float32 list" where
  "drop_committed force t1 buf =
     (if 0 < t1 then
        (let samples_to_erase = nat (t1 * 160)
         in if samples_to_erase < length buf then drop samples_to_erase buf else [])
      else if force then []
      else buf)"

definition transcription_failed :: "int \<Rightarrow> exn" where
  "transcription_failed code =
     Runtime_Error (''Whisper transcription failed with code: '' @ to_string_int code)"

definition transcribeSlidingWindow :: "whisper \<Rightarrow> bool \<Rightarrow> engine \<Rightarrow> transcribe_result result \<times> engine" where
  "transcribeSlidingWindow whisper force e =
     (if audio_buffer e = [] then (Inr \<lparr>partial_text = [], committed_text = []\<rparr>, e)
      else let out = whisper (mk_params e) (audio_buffer e) in
        if wo_code out \<noteq> 0 then (Inl (transcription_failed (wo_code out)), e)
        else let e1 = lock_language (wo_lang out) e;
                 segs = wo_segments out;
                 (commit_up_to, commit_t1) = commit_decision force (length (audio_buffer e1)) segs
             in if 0 \<le> commit_up_to then
                  (Inr \<lparr>partial_text = segs_text (drop (nat commit_up_to + 1) segs),
                        committed_text = segs_text (take (nat commit_up_to + 1) segs)\<rparr>,
                   e1\<lparr>audio_buffer := drop_committed force commit_t1 (audio_buffer e1)\<rparr>)
                else (Inr \<lparr>partial_text = segs_text segs, committed_text = []\<rparr>, e1))"

text \<open>
  \<open>transcribe\<close> holds a slot of the limiter around a forced commit; \<open>None\<close> while it has to
  wait for one. The guard gives the slot back also when the decoder fails.
\<close>

definition transcribe :: "whisper \<Rightarrow> inference_limiter \<Rightarrow> engine
    \<Rightarrow> (string result \<times> inference_limiter \<times> engine) option" where
  "transcribe whisper limiter e = (case inf_acquire limiter of
       None \<Rightarrow> None
     | Some l \<Rightarrow>
         let (r, e') = transcribeSlidingWindow whisper True e
         in Some (bind_result r (\<lambda>res. Inr (committed_text res)), inf_release l, e'))"

definition reset :: "nat \<Rightarrow> engine \<Rightarrow> engine" where
  "reset keep_samples e =
     (if keep_samples = 0 \<or> length (audio_buffer e) \<le> keep_samples then e\<lparr>audio_buffer := []\<rparr>
      else e\<lparr>audio_buffer := drop (length (audio_buffer e) - keep_samples) (audio_buffer e)\<rparr>)"

definition getBufferSize :: "engine \<Rightarrow> nat" where
  "getBufferSize e = length (audio_buffer e)"

section \<open>The setters\<close>

definition setLanguage :: "string \<Rightarrow> engine \<Rightarrow> engine" where
  "setLanguage lang e = e\<lparr>language := lang\<rparr>"

definition setThreads :: "int \<Rightarrow> engine \<Rightarrow> engine" where
  "setThreads n e = (if 0 < n then e\<lparr>n_threads := n\<rparr> else e)"

definition setBeamSize :: "int \<Rightarrow> engine \<Rightarrow> engine" where
  "setBeamSize n e = (if 0 < n then e\<lparr>beam_size := n\<rparr> else e)"

definition setInitialPrompt :: "string \<Rightarrow> engine \<Rightarrow> engine" where
  "setInitialPrompt p e = e\<lparr>initial_prompt := p\<rparr>"

definition setVadThreshold :: "float32 \<Rightarrow> engine \<Rightarrow> engine" where
  "setVadThreshold v e = e\<lparr>vad_thold := v\<rparr>"

definition setTemperature :: "float32 \<Rightarrow> engine \<Rightarrow> engine" where
  "setTemperature v e = e\<lparr>temperature := v\<rparr>"

definition setTemperatureInc :: "float32 \<Rightarrow> engine \<Rightarrow> engine" where
  "setTemperatureInc v e = e\<lparr>temperature_inc := v\<rparr>"

definition setNoSpeechThreshold :: "float32 \<Rightarrow> engine \<Rightarrow> engine" where
  "setNoSpeechThreshold v e = e\<lparr>no_speech_thold := v\<rparr>"

definition setLogprobThreshold :: "float32 \<Rightarrow> engine \<Rightarrow> engine" where
  "setLogprobThreshold v e = e\<lparr>logprob_thold := v\<rparr>"

lemmas setter_defs = setLanguage_def setThreads_def setBeamSize_def setInitialPrompt_def
  setVadThreshold_def setTemperature_def setTemperatureInc_def setNoSpeechThreshold_def
  setLogprobThreshold_def

section \<open>Sample formats\<close>

definition convertInt16ToFloat32 :: "16 word list \<Rightarrow> float32 list" where
  "convertInt16ToFloat32 pcm16 = map (\<lambda>w. fdiv (f_of_int (sint w)) (FNum 32768)) pcm16"

text \<open>The 16-bit samples in a block of memory, little-endian.\<close>

fun int16s :: "8 word list \<Rightarrow> 16 word list" where
  "int16s (lo # hi # bs) = (of_nat (unat lo + 256 * unat hi) :: 16 word) # int16s bs"
| "int16s _ = []"

text \<open>
  The destination holds \<open>bytes.size() / 2\<close> samples and \<open>memcpy\<close> copies all the bytes;
  \<open>None\<close> is the write past the end of the destination.
\<close>

definition convertBytesToFloat32 :: "8 word list \<Rightarrow> float32 list option" where
  "convertBytesToFloat32 bs =
     (if 2 * (length bs div 2) < length bs then None else Some (convertInt16ToFloat32 (int16s bs)))"


section \<open>Lemmas: adding audio\<close>

lemma processAudioChunk_dropped:
  "HIGH_WATER_MARK \<le> length (audio_buffer e) \<Longrightarrow> processAudioChunk pcm e = (True, e)"
  by (simp add: processAudioChunk_def)

text \<open>The three branches are one: the last \<open>max_buffer_samples\<close> of old and new samples.\<close>

lemma processAudioChunk_accepted:
  assumes "length (audio_buffer e) < HIGH_WATER_MARK"
    and p: "process pcm (hp_prev_raw e) (hp_prev_filtered e) = (prepped, pr, pf)"
  shows "processAudioChunk pcm e = (False, e\<lparr>hp_prev_raw := pr, hp_prev_filtered := pf,
     audio_buffer := keep_last (max_buffer_samples e) (audio_buffer e @ prepped)\<rparr>)"
proof -
  let ?m = "max_buffer_samples e" and ?b = "audio_buffer e"
  consider "length ?b + length prepped \<le> ?m" | "?m < length ?b + length prepped" "?m \<le> length prepped"
    | "?m < length ?b + length prepped" "length prepped < ?m" by linarith
  then show ?thesis
  proof cases
    case 1
    then show ?thesis using assms(1) by (simp add: processAudioChunk_def p)
  next
    case 2
    then have "keep_last ?m (?b @ prepped) = drop (length prepped - ?m) prepped"
      by (simp add: keep_last_append_right keep_last_def)
    then show ?thesis using assms(1) 2 by (simp add: processAudioChunk_def p)
  next
    case 3
    then have "keep_last ?m (?b @ prepped) = drop (length ?b + length prepped - ?m) ?b @ prepped"
      by (simp add: keep_last_append_left keep_last_def)
    then show ?thesis using assms(1) 3 by (simp add: processAudioChunk_def p)
  qed
qed

lemma processAudioChunk_overflow: "fst (processAudioChunk pcm e) = (HIGH_WATER_MARK \<le> length (audio_buffer e))"
proof (cases "HIGH_WATER_MARK \<le> length (audio_buffer e)")
  case False
  then show ?thesis
    using processAudioChunk_accepted by (cases "process pcm (hp_prev_raw e) (hp_prev_filtered e)") auto
qed (simp add: processAudioChunk_dropped)

lemma processAudioChunk_size:
  assumes "length (audio_buffer e) < HIGH_WATER_MARK"
  shows "length (audio_buffer (snd (processAudioChunk pcm e)))
    = min (max_buffer_samples e) (length (audio_buffer e) + length pcm)"
proof -
  obtain prepped pr pf where p: "process pcm (hp_prev_raw e) (hp_prev_filtered e) = (prepped, pr, pf)"
    by (metis prod_cases3)
  then have "length prepped = length pcm" using process_length [of pcm "hp_prev_raw e" "hp_prev_filtered e"] by simp
  with processAudioChunk_accepted [OF assms p] show ?thesis by simp
qed

section \<open>Lemmas: the number of encoder tokens\<close>

lemma audio_ctx_value:
  assumes "n \<le> MAX_BUFFER"
  shows "\<exists>y. fmul (fdiv (f_of_nat n) (FNum 16000)) (FNum 50) = FNum y
    \<and> 0 \<le> y \<and> y \<le> 1500 \<and> of_nat n / 320 * (1 - 1 / 2 ^ 22) \<le> y"
proof (cases "n = 0")
  case True
  then show ?thesis by (simp add: f_of_nat_def fround_def)
next
  case False
  define q where "q = (of_nat n / 16000 :: rat)"
  have n1: "1 \<le> (of_nat n :: rat)" using False by simp
  have n2: "(of_nat n :: rat) \<le> 480000" using assms of_nat_mono [of n 480000] by simp
  have r: "repr32 30" "repr32 1500" using repr32_of_int [of 30] repr32_of_int [of 1500] by simp_all
  have "repr32 (of_int (int n))" using assms by (intro repr32_of_int) simp
  then have fn: "f_of_nat n = FNum (of_nat n)" using n2 by (simp add: f_of_nat_def fround_repr)
  have q: "1 / 16000 \<le> q" "q \<le> 30" using n1 n2 by (simp_all add: q_def)
  define x where "x = round_rat q"
  have x30: "x \<le> 30" unfolding x_def using q(2) r(1) by (rule rr.rnd_le)
  have x0: "0 \<le> x" unfolding x_def using q by (intro round_rat_nonneg) simp
  have small: "(2::rat) powi (- 126) \<le> 2 powi (- 14)" by (simp only: powi2_le_iff)
  have p14: "(2::rat) powi (- 14) = 1 / 16384" by (simp add: power_int_minus)
  have "2 powi (- 126) \<le> \<bar>q\<bar>" using small p14 q(1) by linarith
  then have "\<bar>round_rat q - q\<bar> \<le> \<bar>q\<bar> / 2 ^ 24" by (rule round_rat_rel_error)
  moreover have "\<bar>q\<bar> = q" using q(1) by linarith
  ultimately have xl: "q - q / 2 ^ 24 \<le> x" unfolding x_def by linarith
  have fx: "fdiv (f_of_nat n) (FNum 16000) = FNum x"
    using x0 x30 by (simp add: fn fround_def x_def q_def)
  define y where "y = round_rat (x * 50)"
  have y1500: "y \<le> 1500" unfolding y_def using x30 r(2) by (intro rr.rnd_le) simp_all
  have y0: "0 \<le> y" unfolding y_def using x0 by (intro round_rat_nonneg) simp
  have "q / 2 ^ 24 \<le> q / 2" using q(1) by simp
  then have xq: "q / 2 \<le> x" using xl by linarith
  have "2 powi (- 126) \<le> \<bar>x * 50\<bar>" using small p14 xq q(1) by linarith
  then have "\<bar>round_rat (x * 50) - x * 50\<bar> \<le> \<bar>x * 50\<bar> / 2 ^ 24" by (rule round_rat_rel_error)
  moreover have "\<bar>x * 50\<bar> = x * 50" using x0 by simp
  ultimately have yl: "x * 50 - x * 50 / 2 ^ 24 \<le> y" unfolding y_def by linarith
  have "x * 50 / 2 ^ 24 \<le> 50 * (q + q / 2 ^ 24) / 2 ^ 24"
  proof -
    have "x \<le> q + q / 2 ^ 24"
      using \<open>\<bar>round_rat q - q\<bar> \<le> \<bar>q\<bar> / 2 ^ 24\<close> \<open>\<bar>q\<bar> = q\<close> unfolding x_def by linarith
    then show ?thesis by (intro divide_right_mono) simp_all
  qed
  then have "50 * q - 50 * q / 2 ^ 22 \<le> y" using xl yl q(1) by (simp add: field_simps)
  moreover have "of_nat n / 320 * (1 - 1 / 2 ^ 22) = 50 * q - 50 * q / 2 ^ 22"
    by (simp add: q_def field_simps)
  ultimately have "of_nat n / 320 * (1 - 1 / 2 ^ 22) \<le> y" by simp
  moreover have "fmul (fdiv (f_of_nat n) (FNum 16000)) (FNum 50) = FNum y"
    using y0 y1500 by (simp add: fx fround_def y_def)
  ultimately show ?thesis using y0 y1500 by blast
qed

lemma audio_ctx_bounds:
  assumes "n \<le> MAX_BUFFER"
  shows "64 \<le> audio_ctx n \<and> audio_ctx n \<le> 1500 \<and> int n \<le> 320 * audio_ctx n"
proof -
  obtain y where y: "fmul (fdiv (f_of_nat n) (FNum 16000)) (FNum 50) = FNum y" "0 \<le> y" "y \<le> 1500"
    "of_nat n / 320 * (1 - 1 / 2 ^ 22) \<le> y" using audio_ctx_value [OF assms] by blast
  have c: "0 \<le> \<lceil>y\<rceil>" "\<lceil>y\<rceil> \<le> 1500" using y(2,3) by (simp_all add: ceiling_le_iff le_ceiling_iff)
  have eq: "audio_ctx n = max \<lceil>y\<rceil> 64" using c by (simp add: audio_ctx_def y(1))
  have n2: "(of_nat n :: rat) \<le> 480000" using assms of_nat_mono [of n 480000] by simp
  have "of_nat n / 320 * (1 - 1 / 2 ^ 22) \<le> (of_int \<lceil>y\<rceil> :: rat)" using y(4) le_of_int_ceiling [of y] by linarith
  then have "(of_nat n :: rat) \<le> 320 * of_int \<lceil>y\<rceil> + of_nat n / 2 ^ 22" by (simp add: field_simps)
  also have "(of_nat n :: rat) / 2 ^ 22 < 1" using n2 by simp
  finally have "(of_int (int n) :: rat) < of_int (320 * \<lceil>y\<rceil> + 1)" by simp
  then have "int n < 320 * \<lceil>y\<rceil> + 1" by (simp only: of_int_less_iff)
  then show ?thesis using c by (auto simp: eq)
qed


section \<open>Lemmas: the commit\<close>

fun_cases find_commit_SucE: "find_commit b segs (Suc n) = Some i"

lemma find_commit_Some:
  "find_commit b segs n = Some i \<Longrightarrow> i < n \<and> fst (segs ! i) < b \<and> (\<forall>j. i < j \<longrightarrow> j < n \<longrightarrow> b \<le> fst (segs ! j))"
proof (induction n)
  case (Suc n)
  from Suc.prems show ?case
    by (rule find_commit_SucE) (use Suc.IH in \<open>auto simp: less_Suc_eq not_less split: if_splits\<close>)
qed simp

lemma find_commit_None: "find_commit b segs n = None \<Longrightarrow> j < n \<Longrightarrow> b \<le> fst (segs ! j)"
  by (induction n) (auto simp: less_Suc_eq split: if_splits)

lemma segs_text_append: "segs_text (xs @ ys) = segs_text xs @ segs_text ys"
  by (simp add: segs_text_def)

lemma segs_text_split: "segs_text (take k segs) @ segs_text (drop k segs) = segs_text segs"
  by (simp flip: segs_text_append)

lemma lock_language_frame [simp]:
  "audio_buffer (lock_language d e) = audio_buffer e"
  "hp_prev_raw (lock_language d e) = hp_prev_raw e" "hp_prev_filtered (lock_language d e) = hp_prev_filtered e"
  "max_buffer_samples (lock_language d e) = max_buffer_samples e"
  "n_threads (lock_language d e) = n_threads e" "beam_size (lock_language d e) = beam_size e"
  by (simp_all add: lock_language_def split: option.split)

lemma drop_committed_suffix: "suffix (drop_committed f t buf) buf"
  by (simp add: drop_committed_def Let_def suffix_drop)

lemma commit_decision_range:
  "commit_decision force n segs = (up, t1) \<Longrightarrow> - 1 \<le> up \<and> up < int (length segs)"
  by (auto simp: commit_decision_def Let_def dest: find_commit_Some split: if_splits option.splits)

lemma commit_decision_short: "\<not> force \<Longrightarrow> n < MAX_WINDOW \<Longrightarrow> commit_decision force n segs = (- 1, 0)"
  by (simp add: commit_decision_def)

lemma commit_decision_force: "commit_decision True n segs = (int (length segs) - 1, 0)"
  by (simp add: commit_decision_def)

text \<open>
  A commit that is not forced either ends before the last two seconds of the window, or is
  the fallback that keeps exactly the last segment.
\<close>

lemma commit_decision_window:
  assumes "commit_decision False n segs = (up, t1)" and "0 \<le> up"
  shows "MAX_WINDOW \<le> n \<and> t1 = fst (segs ! nat up)
    \<and> (t1 < (int n - 32000) div 160 \<or> (up = int (length segs) - 2 \<and> (\<forall>s \<in> set segs. (int n - 32000) div 160 \<le> fst s)))"
proof (cases "find_commit ((int n - 32000) div 160) segs (length segs)")
  case None
  have "\<forall>s \<in> set segs. (int n - 32000) div 160 \<le> fst s"
    using find_commit_None [OF None] by (metis in_set_conv_nth)
  with None assms show ?thesis by (auto simp: commit_decision_def Let_def split: if_splits)
next
  case (Some i)
  with find_commit_Some [OF Some] assms show ?thesis
    by (auto simp: commit_decision_def Let_def split: if_splits)
qed

text \<open>What a call of the decoder returns and what becomes of the buffer, in one equation.\<close>

lemma transcribe_eq:
  assumes "audio_buffer e \<noteq> []" and "out = whisper (mk_params e) (audio_buffer e)" and "wo_code out = 0"
    and "commit_decision force (length (audio_buffer e)) (wo_segments out) = (up, t1)"
  shows "transcribeSlidingWindow whisper force e =
    (Inr \<lparr>partial_text = segs_text (drop (nat (up + 1)) (wo_segments out)),
          committed_text = segs_text (take (nat (up + 1)) (wo_segments out))\<rparr>,
     (lock_language (wo_lang out) e)\<lparr>audio_buffer :=
        if 0 \<le> up then drop_committed force t1 (audio_buffer e) else audio_buffer e\<rparr>)"
proof (cases "0 \<le> up")
  case True
  then show ?thesis using assms by (simp add: transcribeSlidingWindow_def Let_def nat_add_distrib)
next
  case False
  then have "up = - 1" using commit_decision_range [OF assms(4)] by simp
  then show ?thesis using assms by (simp add: transcribeSlidingWindow_def Let_def segs_text_def)
qed

lemma transcribe_error:
  "audio_buffer e \<noteq> [] \<Longrightarrow> wo_code (whisper (mk_params e) (audio_buffer e)) \<noteq> 0 \<Longrightarrow>
   transcribeSlidingWindow whisper force e
     = (Inl (transcription_failed (wo_code (whisper (mk_params e) (audio_buffer e)))), e)"
  by (simp add: transcribeSlidingWindow_def Let_def)

lemma transcribe_cases:
  obtains (empty) "audio_buffer e = []"
      "transcribeSlidingWindow whisper force e = (Inr \<lparr>partial_text = [], committed_text = []\<rparr>, e)"
  | (error) x where "transcribeSlidingWindow whisper force e = (Inl x, e)"
  | (ok) out up t1 where "audio_buffer e \<noteq> []" "out = whisper (mk_params e) (audio_buffer e)" "wo_code out = 0"
      "commit_decision force (length (audio_buffer e)) (wo_segments out) = (up, t1)"
      "transcribeSlidingWindow whisper force e =
        (Inr \<lparr>partial_text = segs_text (drop (nat (up + 1)) (wo_segments out)),
              committed_text = segs_text (take (nat (up + 1)) (wo_segments out))\<rparr>,
         (lock_language (wo_lang out) e)\<lparr>audio_buffer :=
            if 0 \<le> up then drop_committed force t1 (audio_buffer e) else audio_buffer e\<rparr>)"
proof (cases "audio_buffer e = []")
  case True
  then show thesis by (intro empty) (simp_all add: transcribeSlidingWindow_def)
next
  case False
  let ?out = "whisper (mk_params e) (audio_buffer e)"
  obtain up t1 where d: "commit_decision force (length (audio_buffer e)) (wo_segments ?out) = (up, t1)"
    by fastforce
  show thesis
  proof (cases "wo_code ?out = 0")
    case True
    show thesis by (rule ok [OF False refl True d transcribe_eq [where whisper = whisper, OF False refl True d]])
  next
    case c: False
    show thesis by (rule error [OF transcribe_error [where whisper = whisper, OF False c]])
  qed
qed

text \<open>The decoder step changes nothing but the language and the buffer, which only shrinks.\<close>

lemma transcribe_frame:
  "suffix (audio_buffer (snd (transcribeSlidingWindow whisper force e))) (audio_buffer e)
   \<and> hp_prev_raw (snd (transcribeSlidingWindow whisper force e)) = hp_prev_raw e
   \<and> hp_prev_filtered (snd (transcribeSlidingWindow whisper force e)) = hp_prev_filtered e
   \<and> max_buffer_samples (snd (transcribeSlidingWindow whisper force e)) = max_buffer_samples e
   \<and> n_threads (snd (transcribeSlidingWindow whisper force e)) = n_threads e
   \<and> beam_size (snd (transcribeSlidingWindow whisper force e)) = beam_size e"
  by (cases rule: transcribe_cases [of e whisper force]) (simp_all add: drop_committed_suffix)

lemma transcribe_size:
  "length (audio_buffer (snd (transcribeSlidingWindow whisper force e))) \<le> length (audio_buffer e)"
  using transcribe_frame [of whisper force e] by (auto dest: suffix_length_le)

section \<open>The engine as the session sees it\<close>

text \<open>
  A bounded buffer with a high-water mark: a push is refused exactly from the mark on and
  then changes nothing; a decoder step never lets the buffer grow.
\<close>

locale sample_buffer =
  fixes push :: "'a list \<Rightarrow> 'e \<Rightarrow> bool \<times> 'e" and infer :: "bool \<Rightarrow> 'e \<Rightarrow> 'r \<times> 'e"
    and size_of :: "'e \<Rightarrow> nat" and hwm :: nat and cap :: nat and invar :: "'e \<Rightarrow> bool"
  assumes push_full: "hwm \<le> size_of e \<Longrightarrow> push xs e = (True, e)"
    and push_room: "size_of e < hwm \<Longrightarrow> fst (push xs e) = False"
    and push_size: "invar e \<Longrightarrow> size_of e < hwm \<Longrightarrow> size_of (snd (push xs e)) = min cap (size_of e + length xs)"
    and infer_size: "size_of (snd (infer f e)) \<le> size_of e"
    and push_invar: "invar e \<Longrightarrow> invar (snd (push xs e))"
    and infer_invar: "invar e \<Longrightarrow> invar (snd (infer f e))"
    and hwm_cap: "hwm \<le> cap"
begin

lemma push_result: "fst (push xs e) = (hwm \<le> size_of e)"
  using push_full [of e xs] push_room [of e xs] by (cases "hwm \<le> size_of e") auto

lemma push_grows: "invar e \<Longrightarrow> size_of e \<le> size_of (snd (push xs e))"
  using push_full [of e xs] push_size [of e xs] hwm_cap by (cases "hwm \<le> size_of e") auto

lemma push_bounded: "invar e \<Longrightarrow> size_of e \<le> cap \<Longrightarrow> size_of (snd (push xs e)) \<le> cap"
  using push_full [of e xs] push_size [of e xs] by (cases "hwm \<le> size_of e") auto

text \<open>Once the mark is reached, every push is refused until a decoder step frees space.\<close>

lemma push_refused_again: "fst (push xs e) \<Longrightarrow> fst (push ys (snd (push xs e)))"
  using push_full [of e xs] by (simp add: push_result)

end

definition engine_ok :: "engine \<Rightarrow> bool" where
  "engine_ok e \<longleftrightarrow> max_buffer_samples e = MAX_BUFFER \<and> length (audio_buffer e) \<le> MAX_BUFFER
     \<and> 0 < n_threads e \<and> 0 < beam_size e"

lemma processAudioChunk_frame:
  "max_buffer_samples (snd (processAudioChunk pcm e)) = max_buffer_samples e
   \<and> n_threads (snd (processAudioChunk pcm e)) = n_threads e
   \<and> beam_size (snd (processAudioChunk pcm e)) = beam_size e"
  by (simp add: processAudioChunk_def Let_def split: prod.split)

lemma engine_ok_push:
  assumes "engine_ok e"
  shows "engine_ok (snd (processAudioChunk pcm e))"
proof (cases "HIGH_WATER_MARK \<le> length (audio_buffer e)")
  case True
  then show ?thesis using assms by (simp add: processAudioChunk_dropped)
next
  case False
  then show ?thesis
    using assms processAudioChunk_frame [of pcm e] processAudioChunk_size [of e pcm]
    by (simp add: engine_ok_def)
qed

lemma append_fails_frame:
  "max_buffer_samples (append_fails pcm e) = max_buffer_samples e" "n_threads (append_fails pcm e) = n_threads e"
  "beam_size (append_fails pcm e) = beam_size e" "eng_ctx (append_fails pcm e) = eng_ctx e"
  "length (audio_buffer (append_fails pcm e)) \<le> length (audio_buffer e)"
  by (simp_all add: append_fails_def split: prod.split)

lemma push_chunk_ok: "engine_ok e \<Longrightarrow> engine_ok (snd (push_chunk f pcm e))"
  using engine_ok_push [of e pcm] append_fails_frame [of pcm e]
  by (auto simp: push_chunk_def engine_ok_def split: prod.split)

lemma push_chunk_no_fault [simp]: "push_chunk No_Fault pcm e = (Inr (fst (processAudioChunk pcm e)), snd (processAudioChunk pcm e))"
  using processAudioChunk_dropped [of e pcm] by (simp add: push_chunk_def split: prod.split)

lemma push_chunk_cases:
  obtains (same) "snd (push_chunk f pcm e) = e" | (failed) "snd (push_chunk f pcm e) = append_fails pcm e"
  | (taken) "snd (push_chunk f pcm e) = snd (processAudioChunk pcm e)"
proof -
  have "snd (push_chunk f pcm e) \<in> {e, append_fails pcm e, snd (processAudioChunk pcm e)}"
    by (simp add: push_chunk_def split: prod.split)
  then show thesis using that by blast
qed

lemma engine_ok_infer: "engine_ok e \<Longrightarrow> engine_ok (snd (transcribeSlidingWindow whisper force e))"
  using transcribe_frame [of whisper force e] transcribe_size [of whisper force e]
  by (simp add: engine_ok_def)

lemma engine_ok_new: "new_engine ok c = Inr e \<Longrightarrow> engine_ok e \<and> audio_buffer e = []"
  by (auto simp: new_engine_def engine_ok_def split: option.splits if_splits)

interpretation ebuf: sample_buffer processAudioChunk "transcribeSlidingWindow whisper"
  getBufferSize HIGH_WATER_MARK MAX_BUFFER engine_ok for whisper
proof
  fix e :: engine and xs
  show "HIGH_WATER_MARK \<le> getBufferSize e \<Longrightarrow> processAudioChunk xs e = (True, e)"
    by (simp add: getBufferSize_def processAudioChunk_dropped)
  show "getBufferSize e < HIGH_WATER_MARK \<Longrightarrow> fst (processAudioChunk xs e) = False"
    by (simp add: getBufferSize_def processAudioChunk_overflow)
  show "engine_ok e \<Longrightarrow> getBufferSize e < HIGH_WATER_MARK \<Longrightarrow>
      getBufferSize (snd (processAudioChunk xs e)) = min MAX_BUFFER (getBufferSize e + length xs)"
    using processAudioChunk_size [of e xs] by (simp add: getBufferSize_def engine_ok_def)
qed (simp_all add: getBufferSize_def transcribe_size engine_ok_push engine_ok_infer)

section \<open>Runs of the engine\<close>

text \<open>
  Any sequence of operations on one engine, with a decoder and faults of memory that differ from
  call to call; \<open>P\<close> is what is known of the incoming chunks.
\<close>

inductive engine_step :: "(float32 list \<Rightarrow> bool) \<Rightarrow> engine \<Rightarrow> engine \<Rightarrow> bool" for P where
  push: "P pcm \<Longrightarrow> engine_step P e (snd (push_chunk fault pcm e))"
| infer: "engine_step P e (snd (transcribeSlidingWindow whisper force e))"
| clear: "engine_step P e (reset keep e)"
| set: "f \<in> {setLanguage l, setThreads n, setBeamSize n, setInitialPrompt l, setVadThreshold v,
     setTemperature v, setTemperatureInc v, setNoSpeechThreshold v, setLogprobThreshold v} \<Longrightarrow>
     engine_step P e (f e)"

abbreviation engine_steps :: "(float32 list \<Rightarrow> bool) \<Rightarrow> engine \<Rightarrow> engine \<Rightarrow> bool" where
  "engine_steps P \<equiv> (engine_step P)\<^sup>*\<^sup>*"

lemma engine_step_ok: "engine_step P e e' \<Longrightarrow> engine_ok e \<Longrightarrow> engine_ok e'"
proof (induction rule: engine_step.induct)
  case (clear keep e)
  then show ?case by (auto simp: reset_def engine_ok_def)
next
  case (set f l n v e)
  then show ?case by (auto simp: setter_defs engine_ok_def)
qed (simp_all add: push_chunk_ok engine_ok_infer)

interpretation engine_bounds: step_invariant "engine_step P" engine_ok
  by unfold_locales (rule engine_step_ok)

lemmas engine_steps_ok = engine_bounds.steps_keep

text \<open>With samples in \<open>[-1, 1]\<close> coming in, no NaN or infinity ever reaches the buffer.\<close>

definition audio_finite :: "engine \<Rightarrow> bool" where
  "audio_finite e \<longleftrightarrow> list_all (fbounded 64) (audio_buffer e)
     \<and> fbounded 1 (hp_prev_raw e) \<and> fbounded 64 (hp_prev_filtered e)"

lemma audio_finite_push:
  assumes "audio_finite e" and "list_all (fbounded 1) pcm"
  shows "audio_finite (snd (processAudioChunk pcm e))"
proof (cases "HIGH_WATER_MARK \<le> length (audio_buffer e)")
  case True
  then show ?thesis using assms by (simp add: processAudioChunk_dropped)
next
  case False
  obtain out pr pf where p: "process pcm (hp_prev_raw e) (hp_prev_filtered e) = (out, pr, pf)"
    by (metis prod_cases3)
  have b: "list_all (fbounded 64) out \<and> fbounded 1 pr \<and> fbounded 64 pf"
    using assms by (intro process_bounded [OF _ _ _ p]) (simp_all add: audio_finite_def)
  have "set (keep_last (max_buffer_samples e) (audio_buffer e @ out)) \<subseteq> set (audio_buffer e @ out)"
    by (rule set_keep_last)
  with b assms(1) False processAudioChunk_accepted [OF _ p] show ?thesis
    by (auto simp: audio_finite_def list_all_iff)
qed

lemma audio_finite_fails:
  assumes "audio_finite e" and "list_all (fbounded 1) pcm"
  shows "audio_finite (append_fails pcm e)"
proof -
  obtain out pr pf where p: "process pcm (hp_prev_raw e) (hp_prev_filtered e) = (out, pr, pf)"
    by (metis prod_cases3)
  have "fbounded 1 pr \<and> fbounded 64 pf"
    using assms process_bounded [OF _ _ _ p] by (simp add: audio_finite_def)
  with assms(1) show ?thesis
    by (auto simp: append_fails_def p audio_finite_def list_all_iff dest: in_set_dropD)
qed

lemma audio_finite_step: "engine_step (list_all (fbounded 1)) e e' \<Longrightarrow> audio_finite e \<Longrightarrow> audio_finite e'"
proof (induction rule: engine_step.induct)
  case (push pcm e fault)
  then show ?case
    by (cases rule: push_chunk_cases [of fault pcm e]) (simp_all add: audio_finite_push audio_finite_fails)
next
  case (infer e whisper force)
  have "set (audio_buffer (snd (transcribeSlidingWindow whisper force e))) \<subseteq> set (audio_buffer e)"
    using transcribe_frame [of whisper force e] set_mono_suffix by blast
  then show ?case using infer transcribe_frame [of whisper force e]
    by (auto simp: audio_finite_def list_all_iff)
next
  case (clear keep e)
  then show ?case by (auto simp: reset_def audio_finite_def list_all_iff dest: in_set_dropD)
next
  case (set f l n v e)
  then show ?case by (auto simp: setter_defs audio_finite_def)
qed

interpretation finite_audio: step_invariant "engine_step (list_all (fbounded 1))" audio_finite
  by unfold_locales (rule audio_finite_step)

lemmas audio_finite_steps = finite_audio.steps_keep

section \<open>Lemmas: sample formats\<close>

lemma int16_scaled:
  assumes "\<bar>i\<bar> \<le> 2 ^ 15"
  shows "fdiv (f_of_int i) (FNum 32768) = FNum (of_int i / 32768)"
proof -
  have r: "repr32 (of_int i)" "repr32 (of_int i / 2 ^ 15)"
    using repr32_of_int [of i] repr32_scaled [of i 15] assms by simp_all
  have "of_int \<bar>i\<bar> \<le> (of_int (2 ^ 15) :: rat)" using assms by (simp only: of_int_le_iff)
  then have "\<bar>of_int i\<bar> \<le> (32768 :: rat)" by simp
  then show ?thesis using r by (simp add: f_of_int_def fround_repr)
qed

lemma int16_range: "- (2 ^ 15) \<le> sint (w :: 16 word)" "sint (w :: 16 word) < 2 ^ 15"
  using sint_ge [of w] sint_lt [of w] by simp_all

lemma int16_value:
  "fdiv (f_of_int (sint (w :: 16 word))) (FNum 32768) = FNum (of_int (sint w) / 32768)"
  using int16_range [of w] by (intro int16_scaled) (simp add: abs_le_iff)

text \<open>The bytes of 16-bit samples as a client sends them.\<close>

definition int16_bytes :: "16 word list \<Rightarrow> 8 word list" where
  "int16_bytes ws = concat (map (\<lambda>w. [of_nat (unat w mod 256), of_nat (unat w div 256)]) ws)"

lemma unat_byte: "n < 256 \<Longrightarrow> unat (of_nat n :: 8 word) = n"
  by (simp add: unat_of_nat take_bit_nat_eq_self)

lemma int16s_bytes: "int16s (int16_bytes ws) = ws"
proof (induction ws)
  case (Cons w ws)
  have lt: "unat w < 2 ^ 16" using unsigned_less [of w] by simp
  have "of_nat (unat w mod 256 + 256 * (unat w div 256)) = w" by simp
  then show ?case using Cons lt
    by (simp add: int16_bytes_def unat_byte div_less_iff_less_mult del: of_nat_add of_nat_mult)
qed (simp add: int16_bytes_def)

lemma int16_bytes_length: "length (int16_bytes ws) = 2 * length ws"
  by (induction ws) (simp_all add: int16_bytes_def)

section \<open>Lemmas: after a NaN\<close>

lemma nan_state_step:
  "engine_step P e e' \<Longrightarrow> hp_prev_filtered e = FNan \<Longrightarrow> hp_prev_filtered e' = FNan"
proof (induction rule: engine_step.induct)
  case (push pcm e fault)
  obtain out pr pf where p: "process pcm (hp_prev_raw e) (hp_prev_filtered e) = (out, pr, pf)"
    by (metis prod_cases3)
  have pf: "pf = FNan" using process_from_nan [of pcm "hp_prev_raw e" out pr pf] p push by simp
  have "hp_prev_filtered (snd (processAudioChunk pcm e)) = FNan"
    using push pf processAudioChunk_accepted [OF _ p]
    by (cases "HIGH_WATER_MARK \<le> length (audio_buffer e)") (auto simp: processAudioChunk_dropped)
  moreover have "hp_prev_filtered (append_fails pcm e) = FNan" using pf by (simp add: append_fails_def p)
  ultimately show ?case using push by (cases rule: push_chunk_cases [of fault pcm e]) simp_all
next
  case (infer e whisper force)
  then show ?case using transcribe_frame [of whisper force e] by simp
next
  case (clear keep e)
  then show ?case by (simp add: reset_def)
next
  case (set f l n v e)
  then show ?case by (auto simp: setter_defs)
qed

interpretation nan_state: step_invariant "engine_step P" "\<lambda>e. hp_prev_filtered e = FNan"
  by unfold_locales (rule nan_state_step)

lemmas nan_state_steps = nan_state.steps_keep

section \<open>Properties\<close>

definition loud :: "float32 list" where "loud = [FNum 1]"

definition engine0 :: engine where
  "engine0 = \<lparr>eng_ctx = 0, language = ''es'', initial_prompt = [], n_threads = 4, beam_size = 5,
     vad_thold = FNum 0, temperature = fround (2 / 10), temperature_inc = fround (2 / 10),
     no_speech_thold = fround (3 / 10), logprob_thold = FNum (- 1),
     max_buffer_samples = MAX_BUFFER, audio_buffer = [], hp_prev_raw = FNum 0, hp_prev_filtered = FNum 0\<rparr>"

lemma engine0_new: "new_engine (\<lambda>_. True) (Some 0) = Inr engine0"
  by (simp add: new_engine_def engine0_def)

text \<open>Adding a chunk is all or nothing: at 20 s of audio or more it is refused, reported, and
  nothing changes, not even the filter; below, the filtered chunk is appended and exactly the
  oldest samples beyond the 30 s capacity are discarded.\<close>

theorem chunk_appended_or_refused:
  "processAudioChunk pcm e =
    (if HIGH_WATER_MARK \<le> getBufferSize e then (True, e)
     else let (prepped, pr, pf) = process pcm (hp_prev_raw e) (hp_prev_filtered e)
          in (False, e\<lparr>hp_prev_raw := pr, hp_prev_filtered := pf,
                       audio_buffer := keep_last (max_buffer_samples e) (audio_buffer e @ prepped)\<rparr>))"
proof (cases "HIGH_WATER_MARK \<le> getBufferSize e")
  case True
  then show ?thesis by (simp add: processAudioChunk_dropped getBufferSize_def)
next
  case False
  obtain out pr pf where p: "process pcm (hp_prev_raw e) (hp_prev_filtered e) = (out, pr, pf)"
    by (metis prod_cases3)
  show ?thesis using False processAudioChunk_accepted [OF _ p] by (simp add: p getBufferSize_def)
qed

text \<open>C9: Whatever is called on an engine, in whatever order, its buffer never exceeds 30 s, thread
  count and beam size stay positive, and the encoder context it asks for covers the whole
  buffer within the 64 to 1500 tokens of the decoder.\<close>

theorem engine_stays_within_bounds:
  assumes "new_engine init_state c = Inr e0" and "engine_steps P e0 e"
  shows "getBufferSize e \<le> MAX_BUFFER \<and> 0 < wp_n_threads (mk_params e)
    \<and> 64 \<le> wp_audio_ctx (mk_params e) \<and> wp_audio_ctx (mk_params e) \<le> 1500
    \<and> int (getBufferSize e) \<le> 320 * wp_audio_ctx (mk_params e)"
proof -
  have "engine_ok e" using engine_steps_ok [OF assms(2)] engine_ok_new [OF assms(1)] by simp
  then show ?thesis using audio_ctx_bounds [of "length (audio_buffer e)"]
    by (simp add: engine_ok_def getBufferSize_def mk_params_def)
qed

lemma one_push: "engine_steps (list_all (fbounded 1)) engine0 (snd (processAudioChunk loud engine0))"
  using engine_step.push [of "list_all (fbounded 1)" loud engine0 No_Fault] by (auto simp: loud_def)

theorem engine_stays_within_bounds_witness:
  "int (getBufferSize (snd (processAudioChunk loud engine0)))
     \<le> 320 * wp_audio_ctx (mk_params (snd (processAudioChunk loud engine0)))"
  using engine_stays_within_bounds [OF engine0_new one_push] by simp

text \<open>C27: As long as the chunks hold samples in \<open>[-1, 1]\<close>, every sample the decoder is given is a
  finite number of magnitude at most 64, whatever else is called in between.\<close>

theorem decoder_input_finite:
  assumes "new_engine init_state c = Inr e0" and "engine_steps (list_all (fbounded 1)) e0 e"
  shows "list_all (fbounded 64) (audio_buffer e)"
proof -
  have "audio_finite e0" using assms(1)
    by (auto simp: new_engine_def audio_finite_def split: option.splits if_splits)
  with audio_finite_steps [OF assms(2)] show ?thesis by (simp add: audio_finite_def)
qed

theorem decoder_input_finite_witness:
  "list_all (fbounded 64) (audio_buffer (snd (processAudioChunk loud engine0)))"
  by (rule decoder_input_finite [OF engine0_new one_push])

text \<open>C28: One NaN sample that is accepted ruins the stream for good: nothing that can be called on the
  engine later clears the filter, and every chunk accepted from then on enters the buffer as
  NaNs only.\<close>

theorem nan_sample_poisons_stream:
  assumes "FNan \<in> set pcm" and "getBufferSize e < HIGH_WATER_MARK"
    and "engine_steps P (snd (processAudioChunk pcm e)) e'" and "getBufferSize e' < HIGH_WATER_MARK"
  shows "audio_buffer (snd (processAudioChunk pcm' e'))
    = keep_last (max_buffer_samples e') (audio_buffer e' @ replicate (length pcm') FNan)"
proof -
  obtain out pr pf where p: "process pcm (hp_prev_raw e) (hp_prev_filtered e) = (out, pr, pf)"
    by (metis prod_cases3)
  have "hp_prev_filtered (snd (processAudioChunk pcm e)) = FNan"
    using processAudioChunk_accepted [OF _ p] assms(2) process_nan_sample [OF assms(1) p]
    by (simp add: getBufferSize_def)
  then have f: "hp_prev_filtered e' = FNan" by (rule nan_state_steps [OF assms(3)])
  obtain out' pr' pf' where p': "process pcm' (hp_prev_raw e') FNan = (out', pr', pf')"
    by (metis prod_cases3)
  have "length out' = length pcm'" using process_length [of pcm' "hp_prev_raw e'" FNan] p' by simp
  then have "out' = replicate (length pcm') FNan"
    using process_from_nan [OF p'] by (auto intro!: replicate_eqI)
  then show ?thesis using processAudioChunk_accepted [of e' pcm'] p' f assms(4)
    by (simp add: getBufferSize_def)
qed

theorem nan_sample_poisons_stream_witness:
  "audio_buffer (snd (processAudioChunk loud (reset 0 (snd (processAudioChunk [FNan] engine0)))))
    = keep_last (max_buffer_samples (reset 0 (snd (processAudioChunk [FNan] engine0))))
        (audio_buffer (reset 0 (snd (processAudioChunk [FNan] engine0))) @ replicate (length loud) FNan)"
proof (rule nan_sample_poisons_stream [of "[FNan]"])
  show "engine_steps (\<lambda>_. True) (snd (processAudioChunk [FNan] engine0))
      (reset 0 (snd (processAudioChunk [FNan] engine0)))"
    by (rule r_into_rtranclp, rule engine_step.clear)
qed (simp_all add: getBufferSize_def engine0_def reset_def)

text \<open>A decoder that finds the given segments in every window.\<close>

definition decodes :: "segment list \<Rightarrow> whisper" where
  "decodes segs = (\<lambda>params samples. \<lparr>wo_code = 0, wo_segments = segs, wo_lang = Some ''en''\<rparr>)"

definition full_window :: engine where
  "full_window = engine0\<lparr>audio_buffer := replicate MAX_WINDOW (FNum 0)\<rparr>"

lemma full_window_run:
  "transcribeSlidingWindow (decodes [(300, Some ''a''), (900, Some ''b'')]) False full_window
    = (Inr \<lparr>partial_text = ''b'', committed_text = ''a''\<rparr>,
       full_window\<lparr>audio_buffer := replicate (MAX_WINDOW - 48000) (FNum 0)\<rparr>)"
proof -
  have "commit_decision False MAX_WINDOW [(300, Some ''a''), (900, Some ''b'')] = (0, 300)"
    by (simp add: commit_decision_def numeral_2_eq_2)
  then show ?thesis
    using transcribe_eq [of full_window _ "decodes [(300, Some ''a''), (900, Some ''b'')]" False 0 300, OF _ refl]
    by (simp add: full_window_def decodes_def engine0_def lock_language_def drop_committed_def segs_text_def)
qed

text \<open>C23: No decoded text is lost or duplicated: what is committed followed by what stays partial is
  the text of all the segments the decoder returned, in order.\<close>

theorem decoded_text_conserved:
  assumes "transcribeSlidingWindow whisper force e = (Inr r, e')" and "audio_buffer e \<noteq> []"
  shows "committed_text r @ partial_text r = segs_text (wo_segments (whisper (mk_params e) (audio_buffer e)))"
  using assms by (cases rule: transcribe_cases [of e whisper force]) (auto simp: segs_text_split)

theorem decoded_text_conserved_witness:
  "''a'' @ ''b'' = segs_text (wo_segments (decodes [(300, Some ''a''), (900, Some ''b'')]
     (mk_params full_window) (audio_buffer full_window)))"
  using decoded_text_conserved [OF full_window_run] by (simp add: full_window_def)

text \<open>C10: An unforced window only loses audio when it holds at least 10 s, only at its old end, and
  either more than two seconds of it stay, or every segment reaches into the last two seconds
  and exactly the last segment stays partial. Under 10 s nothing is committed.\<close>

theorem window_commit_keeps_overlap:
  assumes "transcribeSlidingWindow whisper False e = (Inr r, e')"
    and "segs = wo_segments (whisper (mk_params e) (audio_buffer e))"
  shows "suffix (audio_buffer e') (audio_buffer e)
    \<and> (getBufferSize e < MAX_WINDOW \<longrightarrow> audio_buffer e' = audio_buffer e \<and> committed_text r = [])
    \<and> (audio_buffer e' \<noteq> audio_buffer e \<longrightarrow> 32000 < getBufferSize e'
        \<or> ((\<forall>s \<in> set segs. (int (getBufferSize e) - 32000) div 160 \<le> fst s)
           \<and> partial_text r = segs_text [last segs]))"
proof -
  have suf: "suffix (audio_buffer e') (audio_buffer e)"
    using transcribe_frame [of whisper False e] assms(1) by simp
  show ?thesis
  proof (cases rule: transcribe_cases [of e whisper False])
    case (ok out up t1)
    let ?n = "length (audio_buffer e)"
    have r: "r = \<lparr>partial_text = segs_text (drop (nat (up + 1)) segs),
        committed_text = segs_text (take (nat (up + 1)) segs)\<rparr>"
      and b: "audio_buffer e' = (if 0 \<le> up then drop_committed False t1 (audio_buffer e) else audio_buffer e)"
      using ok(2,5) assms by auto
    note range = commit_decision_range [OF ok(4)]
    have short: "?n < MAX_WINDOW \<Longrightarrow> up = - 1"
      using commit_decision_short [of False ?n "wo_segments out"] ok(4) by simp
    have "32000 < length (audio_buffer e') \<or> ((\<forall>s \<in> set segs. (int ?n - 32000) div 160 \<le> fst s)
        \<and> partial_text r = segs_text [last segs])" if ne: "audio_buffer e' \<noteq> audio_buffer e"
    proof -
      have up: "0 \<le> up" using ne b by (auto split: if_splits)
      consider "t1 < (int ?n - 32000) div 160"
        | "up = int (length segs) - 2" "\<forall>s \<in> set segs. (int ?n - 32000) div 160 \<le> fst s"
        using commit_decision_window [OF ok(4) up] ok(2) assms(2) by auto
      then show ?thesis
      proof cases
        case 1
        then have "t1 * 160 + 160 \<le> int ?n - 32000" by linarith
        moreover have "0 < t1" using ne b up by (auto simp: drop_committed_def split: if_splits)
        ultimately have "nat (t1 * 160) + 32000 < length (audio_buffer e)" and "0 < t1" by linarith+
        then have "32000 < length (audio_buffer e')"
          using b up by (simp add: drop_committed_def Let_def)
        then show ?thesis by simp
      next
        case 2
        then have k: "length segs \<noteq> 0" "nat (up + 1) = length segs - 1" using up by auto
        then have "drop (nat (up + 1)) segs = [last segs]"
          by (metis append_butlast_last_id append_eq_conv_conj length_0_conv length_butlast)
        with r 2 show ?thesis by simp
      qed
    qed
    with suf r b short show ?thesis by (auto simp: getBufferSize_def segs_text_def)
  qed (use assms in \<open>auto simp: getBufferSize_def\<close>)
qed

theorem window_commit_keeps_overlap_witness:
  "32000 < getBufferSize (full_window\<lparr>audio_buffer := replicate (MAX_WINDOW - 48000) (FNum 0)\<rparr>)"
  using window_commit_keeps_overlap [OF full_window_run refl]
  by (simp add: getBufferSize_def full_window_def)

text \<open>C24: A forced commit with at least one segment returns all its text as committed and empties the
  buffer; when the decoder finds no segment, it returns no text and the audio stays.\<close>

theorem forced_commit_takes_all:
  assumes "transcribeSlidingWindow whisper True e = (Inr r, e')" and "audio_buffer e \<noteq> []"
    and "segs = wo_segments (whisper (mk_params e) (audio_buffer e))"
  shows "committed_text r = segs_text segs \<and> partial_text r = []
    \<and> audio_buffer e' = (if segs = [] then audio_buffer e else [])"
proof (cases rule: transcribe_cases [of e whisper True])
  case (ok out up t1)
  then have "up = int (length segs) - 1" "t1 = 0" using assms(3) by (auto simp: commit_decision_force)
  moreover have "0 \<le> up \<longleftrightarrow> segs \<noteq> []" using \<open>up = _\<close> by (cases segs) auto
  ultimately show ?thesis using ok assms by (auto simp: drop_committed_def segs_text_def)
qed (use assms in auto)

lemma forced_run:
  "transcribeSlidingWindow (decodes [(300, Some ''a'')]) True full_window
    = (Inr \<lparr>partial_text = [], committed_text = ''a''\<rparr>, full_window\<lparr>audio_buffer := []\<rparr>)"
  using transcribe_eq [of full_window _ "decodes [(300, Some ''a'')]" True 0 0, OF _ refl]
  by (simp add: commit_decision_force full_window_def decodes_def engine0_def lock_language_def
      drop_committed_def segs_text_def)

theorem forced_commit_takes_all_witness:
  "''a'' = segs_text [(300, Some ''a'')] \<and> audio_buffer (full_window\<lparr>audio_buffer := []\<rparr>) = []"
  using forced_commit_takes_all [OF forced_run _ refl] by (simp add: full_window_def decodes_def)

text \<open>C25: When the decoder reports an error, the call throws with its code and the engine is as before,
  so the audio can be decoded again; the blocking variant also gives its slot back, on the
  error path as on success.\<close>

theorem decoder_failure_is_clean:
  assumes "wo_code (whisper (mk_params e) (audio_buffer e)) = code" and "code \<noteq> 0"
    and "audio_buffer e \<noteq> []" and "hasCapacity limiter" and "inf_ok limiter"
  shows "transcribeSlidingWindow whisper force e = (Inl (transcription_failed code), e)
    \<and> transcribe whisper limiter e = Some (Inl (transcription_failed code), limiter, e)"
  using assms transcribe_error [of e whisper]
  by (auto simp: transcribe_def inf_defs)

theorem decoder_failure_is_clean_witness:
  "transcribe (\<lambda>_ _. \<lparr>wo_code = - 7, wo_segments = [], wo_lang = None\<rparr>) new_inference_limiter full_window
    = Some (Inl (transcription_failed (- 7)), new_inference_limiter, full_window)"
  using decoder_failure_is_clean [of "\<lambda>_ _. \<lparr>wo_code = - 7, wo_segments = [], wo_lang = None\<rparr>" full_window "- 7"
      new_inference_limiter]
  by (simp add: full_window_def new_inference_limiter_def inf_defs)

text \<open>C29: The conversion of 16-bit samples is exact: the bytes of the samples \<open>ws\<close>, low byte first,
  become the numbers \<open>w / 32768\<close> without rounding, all in \<open>[-1, 1]\<close>; a block with an odd number
  of bytes makes the copy run past the end of its destination.\<close>

theorem int16_conversion_exact:
  "convertBytesToFloat32 (int16_bytes ws) = Some (map (\<lambda>w. FNum (of_int (sint w) / 32768)) ws)
   \<and> list_all (fbounded 1) (convertInt16ToFloat32 ws)
   \<and> convertBytesToFloat32 (b # int16_bytes ws) = None"
proof -
  have "fbounded 1 (fdiv (f_of_int (sint (w :: 16 word))) (FNum 32768))" for w
  proof -
    have "\<bar>sint w\<bar> \<le> 2 ^ 15" using int16_range [of w] by (simp add: abs_le_iff)
    then have "of_int \<bar>sint w\<bar> \<le> (of_int (2 ^ 15) :: rat)" by (simp only: of_int_le_iff)
    then show ?thesis by (simp only: int16_value fbounded.simps) simp
  qed
  then show ?thesis
    by (simp add: convertBytesToFloat32_def convertInt16ToFloat32_def int16s_bytes int16_bytes_length
        int16_value [simplified] list_all_iff)
qed

end
