(* ===== verification/Model_Cache.thy ===== *)
theory Model_Cache
  imports Prelude "HOL-Library.Multiset"
begin

text \<open>
  \<open>src/whisper/ModelCache.h\<close>: the singleton that owns the loaded model, counts the
  references of the sessions and unloads the model some time after the last one is gone.
  A context is named by the number of the load that created it, so no two loads give the
  same name; \<open>freed\<close> records the calls of \<open>whisper_free\<close>. Whether
  \<open>whisper_init_from_file_with_params\<close> succeeds for a path is a parameter (\<open>load\<close>). A detached
  timer thread is the time (in ms) at which its sleep ends.
\<close>

section \<open>The cache\<close>

record model_cache =
  ctx :: "nat option"
  loaded_path :: string
  ref_count :: int
  ttl_seconds :: int
  unload_pending :: bool
  timers :: "int list"
  freed :: "nat list"
  loads :: nat

definition new_cache :: model_cache where
  "new_cache = \<lparr>ctx = None, loaded_path = [], ref_count = 0, ttl_seconds = 300,
     unload_pending = False, timers = [], freed = [], loads = 0\<rparr>"

definition configure :: "int \<Rightarrow> model_cache \<Rightarrow> model_cache" where
  "configure ttl c = c\<lparr>ttl_seconds := ttl\<rparr>"

definition unloadLocked :: "model_cache \<Rightarrow> model_cache" where
  "unloadLocked c = (case ctx c of
       None \<Rightarrow> c
     | Some x \<Rightarrow> c\<lparr>freed := x # freed c, ctx := None, loaded_path := [], ref_count := 0\<rparr>)"

definition cancelUnloadLocked :: "model_cache \<Rightarrow> model_cache" where
  "cancelUnloadLocked c = c\<lparr>unload_pending := False\<rparr>"

definition scheduleUnloadLocked :: "int \<Rightarrow> model_cache \<Rightarrow> model_cache" where
  "scheduleUnloadLocked now c =
     c\<lparr>unload_pending := True, timers := timers c @ [now + 1000 * ttl_seconds c]\<rparr>"

text \<open>The body of the timer thread once its sleep has ended.\<close>

definition timer_wake :: "model_cache \<Rightarrow> model_cache" where
  "timer_wake c =
     (if unload_pending c \<and> ref_count c = 0 then (unloadLocked c)\<lparr>unload_pending := False\<rparr> else c)"

definition load_failed :: "string \<Rightarrow> exn" where
  "load_failed path = Runtime_Error (''[ModelCache] Failed to load whisper model: '' @ path)"

definition cache_acquire :: "(string \<Rightarrow> bool) \<Rightarrow> string \<Rightarrow> model_cache \<Rightarrow> nat result \<times> model_cache" where
  "cache_acquire load path c =
     (let c1 = cancelUnloadLocked c;
          load_it = (\<lambda>c2. if load path
             then (Inr (loads c2), c2\<lparr>ctx := Some (loads c2), loads := loads c2 + 1,
                                     loaded_path := path, ref_count := 1\<rparr>)
             else (Inl (load_failed path), c2))
      in case ctx c1 of
           Some x \<Rightarrow>
             (if loaded_path c1 = path then (Inr x, c1\<lparr>ref_count := ref_count c1 + 1\<rparr>)
              else load_it (c1\<lparr>freed := x # freed c1, ctx := None, loaded_path := []\<rparr>))
         | None \<Rightarrow> load_it c1)"

definition cache_release :: "int \<Rightarrow> model_cache \<Rightarrow> model_cache" where
  "cache_release now c =
     (if ref_count c \<le> 0 then c
      else let c1 = c\<lparr>ref_count := ref_count c - 1\<rparr>
           in if ref_count c1 = 0 then
                (if ttl_seconds c1 = 0 then unloadLocked c1
                 else if 0 < ttl_seconds c1 then scheduleUnloadLocked now c1
                 else c1)
              else c1)"

definition forceUnload :: "model_cache \<Rightarrow> model_cache" where
  "forceUnload c = unloadLocked (cancelUnloadLocked c)"

text \<open>The destructor of the singleton, at the end of the process.\<close>

definition cache_destroy :: "model_cache \<Rightarrow> model_cache" where
  "cache_destroy c =
     (let c1 = cancelUnloadLocked c
      in case ctx c1 of None \<Rightarrow> c1 | Some x \<Rightarrow> c1\<lparr>freed := x # freed c1, ctx := None\<rparr>)"

definition refCount :: "model_cache \<Rightarrow> int" where
  "refCount c = ref_count c"

definition isLoaded :: "model_cache \<Rightarrow> bool" where
  "isLoaded c = (ctx c \<noteq> None)"

definition cache_getMetrics :: "model_cache \<Rightarrow> string" where
  "cache_getMetrics c =
     ''transcription_model_loaded '' @ to_string_int (if isLoaded c then 1 else 0) @ [CHR 0x0A] @
     ''transcription_model_ref_count '' @ to_string_int (ref_count c) @ [CHR 0x0A]"

lemmas cache_defs = cache_acquire_def cache_release_def unloadLocked_def cancelUnloadLocked_def
  scheduleUnloadLocked_def timer_wake_def configure_def isLoaded_def forceUnload_def

section \<open>What a session relies on\<close>

locale resource_cache =
  fixes acq :: "'c \<Rightarrow> 'x result \<times> 'c" and rel :: "int \<Rightarrow> 'c \<Rightarrow> 'c"
    and refs :: "'c \<Rightarrow> nat" and live :: "'c \<Rightarrow> 'x option" and invar :: "'c \<Rightarrow> bool"
  assumes acq_ok: "invar c \<Longrightarrow> acq c = (Inr x, c') \<Longrightarrow> invar c' \<and> live c' = Some x \<and> refs c' = refs c + 1"
    and acq_err: "invar c \<Longrightarrow> acq c = (Inl e, c') \<Longrightarrow> invar c' \<and> refs c = 0 \<and> refs c' = 0"
    and acq_shared: "invar c \<Longrightarrow> 0 < refs c \<Longrightarrow> acq c = (r, c') \<Longrightarrow> live c' = live c"
    and rel_refs: "invar c \<Longrightarrow> invar (rel now c) \<and> refs (rel now c) = refs c - 1"
    and rel_live: "invar c \<Longrightarrow> 1 < refs c \<Longrightarrow> live (rel now c) = live c"
    and refs_live: "invar c \<Longrightarrow> 0 < refs c \<Longrightarrow> live c \<noteq> None"
begin

lemma acq_rel_refs: "invar c \<Longrightarrow> acq c = (Inr x, c') \<Longrightarrow> refs (rel now c') = refs c"
  using acq_ok [of c x c'] rel_refs [of c' now] by simp

text \<open>A second acquire before the one release leaves a reference behind.\<close>

lemma acq_acq_rel_leaks:
  "invar c \<Longrightarrow> acq c = (Inr x, c') \<Longrightarrow> acq c' = (Inr y, c'') \<Longrightarrow> refs (rel now c'') = refs c + 1"
  using acq_ok [of c x c'] acq_ok [of c' y c''] rel_refs [of c'' now] by simp

lemma in_use_not_reloaded:
  "invar c \<Longrightarrow> live c = Some x \<Longrightarrow> 0 < refs c \<Longrightarrow> acq c = (Inr y, c') \<Longrightarrow> y = x"
  using acq_shared [of c "Inr y" c'] acq_ok [of c y c'] by simp

end

text \<open>
  The invariant under the one path the server uses: references only to a loaded model,
  which is the one of that path and has not been freed; nothing is freed twice.
\<close>

definition cache_ok :: "string \<Rightarrow> model_cache \<Rightarrow> bool" where
  "cache_ok path c \<longleftrightarrow> 0 \<le> ref_count c
     \<and> (ctx c = None \<longrightarrow> ref_count c = 0)
     \<and> (\<forall>x. ctx c = Some x \<longrightarrow> loaded_path c = path \<and> x < loads c \<and> x \<notin> set (freed c))
     \<and> (\<forall>x \<in> set (freed c). x < loads c) \<and> distinct (freed c)"

lemma cache_ok_new [simp]: "cache_ok path new_cache"
  by (simp add: cache_ok_def new_cache_def)

lemma cache_ok_acquire:
  assumes "cache_ok path c"
  shows "cache_ok path (snd (cache_acquire load path c))"
  using assms by (auto simp: cache_defs cache_ok_def Let_def split: option.splits)

lemma cache_ok_unload: "cache_ok path c \<Longrightarrow> cache_ok path (unloadLocked c)"
  by (auto simp: unloadLocked_def cache_ok_def split: option.split)

lemma cache_ok_release:
  assumes "cache_ok path c"
  shows "cache_ok path (cache_release now c)"
proof -
  have "cache_ok path (c\<lparr>ref_count := ref_count c - 1\<rparr>)" if "0 < ref_count c"
    using assms that by (auto simp: cache_ok_def)
  then show ?thesis using assms cache_ok_unload
    by (auto simp: cache_release_def scheduleUnloadLocked_def Let_def cache_ok_def)
qed

lemma cache_ok_timer: "cache_ok path c \<Longrightarrow> cache_ok path (timer_wake c)"
  using cache_ok_unload [of path c] by (auto simp: timer_wake_def cache_ok_def)

interpretation mcache: resource_cache "cache_acquire load path" cache_release
  "\<lambda>c. nat (ref_count c)" ctx "cache_ok path" for load path
proof
  fix c x c' assume c: "cache_ok path c" and a: "cache_acquire load path c = (Inr x, c')"
  show "cache_ok path c' \<and> ctx c' = Some x \<and> nat (ref_count c') = nat (ref_count c) + 1"
    using cache_ok_acquire [OF c, of load] c a
    by (auto simp: cache_acquire_def cancelUnloadLocked_def cache_ok_def Let_def
        split: option.splits if_splits)
next
  fix c e c' assume c: "cache_ok path c" and a: "cache_acquire load path c = (Inl e, c')"
  show "cache_ok path c' \<and> nat (ref_count c) = 0 \<and> nat (ref_count c') = 0"
    using cache_ok_acquire [OF c, of load] c a
    by (auto simp: cache_acquire_def cancelUnloadLocked_def cache_ok_def Let_def
        split: option.splits if_splits)
next
  fix c r c' assume c: "cache_ok path c" and r: "0 < nat (ref_count c)"
    and a: "cache_acquire load path c = (r, c')"
  show "ctx c' = ctx c"
    using c r a by (auto simp: cache_acquire_def cancelUnloadLocked_def cache_ok_def Let_def
        split: option.splits if_splits)
next
  fix c now assume c: "cache_ok path c"
  show "cache_ok path (cache_release now c) \<and> nat (ref_count (cache_release now c)) = nat (ref_count c) - 1"
    using cache_ok_release [OF c] c
    by (auto simp: cache_release_def unloadLocked_def scheduleUnloadLocked_def Let_def cache_ok_def
        split: option.split)
next
  fix c now assume "cache_ok path c" and "1 < nat (ref_count c)"
  then show "ctx (cache_release now c) = ctx c" by (simp add: cache_release_def)
next
  fix c assume "cache_ok path c" and "0 < nat (ref_count c)"
  then show "ctx c \<noteq> None" by (auto simp: cache_ok_def)
qed

section \<open>The sessions and the timers around the cache\<close>

text \<open>
  \<open>refs\<close> are the contexts the sessions hold a reference to. Sessions acquire the one
  configured path and release what they hold; timers fire at or after their time.
\<close>

record cache_sys =
  cache :: model_cache
  held :: "nat multiset"
  clock :: int

inductive cache_step :: "string \<Rightarrow> cache_sys \<Rightarrow> cache_sys \<Rightarrow> bool" for path where
  acquire_ok: "cache_acquire load path (cache s) = (Inr x, c) \<Longrightarrow>
     cache_step path s (s\<lparr>cache := c, held := add_mset x (held s)\<rparr>)"
| acquire_failed: "cache_acquire load path (cache s) = (Inl e, c) \<Longrightarrow>
     cache_step path s (s\<lparr>cache := c\<rparr>)"
| release: "x \<in># held s \<Longrightarrow>
     cache_step path s (s\<lparr>cache := cache_release (clock s) (cache s), held := held s - {#x#}\<rparr>)"
| timer: "d \<in> set (timers (cache s)) \<Longrightarrow> d \<le> clock s \<Longrightarrow>
     cache_step path s (s\<lparr>cache := timer_wake ((cache s)\<lparr>timers := remove1 d (timers (cache s))\<rparr>)\<rparr>)"
| tick: "clock s \<le> t \<Longrightarrow> cache_step path s (s\<lparr>clock := t\<rparr>)"

inductive cache_reachable :: "string \<Rightarrow> cache_sys \<Rightarrow> bool" for path where
  start: "cache_reachable path \<lparr>cache = configure ttl new_cache, held = {#}, clock = t\<rparr>"
| step: "cache_reachable path s \<Longrightarrow> cache_step path s s' \<Longrightarrow> cache_reachable path s'"

definition cache_sys_inv :: "string \<Rightarrow> cache_sys \<Rightarrow> bool" where
  "cache_sys_inv path s \<longleftrightarrow> cache_ok path (cache s) \<and> ref_count (cache s) = int (size (held s))
     \<and> (\<forall>x \<in># held s. ctx (cache s) = Some x)"

lemma ref_count_acquire_ok:
  assumes "cache_ok path c" and "cache_acquire load path c = (Inr x, c')"
  shows "ref_count c' = ref_count c + 1"
  using mcache.acq_ok [OF assms] assms(1) by (auto simp: cache_ok_def)

lemma ref_count_acquire_err:
  assumes "cache_ok path c" and "cache_acquire load path c = (Inl e, c')"
  shows "ref_count c' = ref_count c"
  using mcache.acq_err [OF assms] assms(1) by (auto simp: cache_ok_def)

lemma ref_count_release: "0 < ref_count c \<Longrightarrow> cache_ok path c \<Longrightarrow> ref_count (cache_release now c) = ref_count c - 1"
  using mcache.rel_refs [of path c now] by (auto simp: cache_ok_def)

lemma cache_step_inv:
  assumes "cache_step path s s'" and inv: "cache_sys_inv path s"
  shows "cache_sys_inv path s'"
  using assms
proof (induction rule: cache_step.induct)
  case (acquire_ok load s x c)
  then have ok: "cache_ok path (cache s)" and r: "ref_count (cache s) = int (size (held s))"
    by (simp_all add: cache_sys_inv_def)
  have new: "cache_ok path c \<and> ctx c = Some x" using mcache.acq_ok [OF ok acquire_ok.hyps] by simp
  have "\<forall>y \<in># held s. y = x"
  proof
    fix y assume y: "y \<in># held s"
    then have "0 < size (held s)" by (auto simp: nonempty_has_size [symmetric])
    then have "0 < nat (ref_count (cache s))" using r by simp
    moreover have "ctx (cache s) = Some y" using y acquire_ok.prems by (simp add: cache_sys_inv_def)
    ultimately show "y = x" using mcache.in_use_not_reloaded [OF ok _ _ acquire_ok.hyps] by blast
  qed
  with new r ref_count_acquire_ok [OF ok acquire_ok.hyps] show ?case
    by (auto simp: cache_sys_inv_def)
next
  case (acquire_failed load s e c)
  then have ok: "cache_ok path (cache s)" and r: "ref_count (cache s) = int (size (held s))"
    by (simp_all add: cache_sys_inv_def)
  have "cache_ok path c \<and> ref_count (cache s) = 0"
    using mcache.acq_err [OF ok acquire_failed.hyps] r by simp
  with r ref_count_acquire_err [OF ok acquire_failed.hyps] show ?case by (simp add: cache_sys_inv_def)
next
  case (release x s)
  then have ok: "cache_ok path (cache s)" and r: "ref_count (cache s) = int (size (held s))"
    by (simp_all add: cache_sys_inv_def)
  have sz: "size (held s) = Suc (size (held s - {#x#}))" using release.hyps by (simp add: size_Suc_Diff1)
  have "cache_ok path (cache_release (clock s) (cache s))" using ok by (rule cache_ok_release)
  moreover have "ctx (cache_release (clock s) (cache s)) = Some y" if y: "y \<in># held s - {#x#}" for y
  proof -
    have "0 < size (held s - {#x#})" using y by (auto simp: nonempty_has_size [symmetric])
    then have "1 < nat (ref_count (cache s))" using r sz by simp
    moreover have "ctx (cache s) = Some y" using release.prems in_diffD [OF y] by (simp add: cache_sys_inv_def)
    ultimately show ?thesis using mcache.rel_live [OF ok] by simp
  qed
  ultimately show ?case using r sz ref_count_release [OF _ ok, of "clock s"] by (simp add: cache_sys_inv_def)
next
  case (timer d s)
  then have inv: "cache_ok path (cache s)" "ref_count (cache s) = int (size (held s))"
    by (simp_all add: cache_sys_inv_def)
  let ?c = "(cache s)\<lparr>timers := remove1 d (timers (cache s))\<rparr>"
  have ok: "cache_ok path ?c" using inv(1) by (simp add: cache_ok_def)
  show ?case
  proof (cases "ref_count (cache s) = 0")
    case True
    then have "held s = {#}" using inv(2) by simp
    moreover have "ref_count (timer_wake ?c) = 0"
      using True by (auto simp: timer_wake_def unloadLocked_def split: option.split)
    ultimately show ?thesis using cache_ok_timer [OF ok] by (simp add: cache_sys_inv_def)
  next
    case False
    then have "timer_wake ?c = ?c" by (simp add: timer_wake_def)
    then show ?thesis using ok timer.prems by (simp add: cache_sys_inv_def)
  qed
next
  case (tick s t)
  then show ?case by (simp add: cache_sys_inv_def)
qed

lemma cache_reachable_inv: "cache_reachable path s \<Longrightarrow> cache_sys_inv path s"
proof (induction rule: cache_reachable.induct)
  case (start ttl t)
  then show ?case by (simp add: cache_sys_inv_def cache_ok_def configure_def new_cache_def)
qed (rule cache_step_inv)

inductive_cases cache_stepE [consumes 1, case_names acquire_ok acquire_failed release timer tick]: "cache_step path s s'"

section \<open>An idle model is always scheduled for unloading\<close>

definition cache_idle :: "int \<Rightarrow> model_cache \<Rightarrow> bool" where
  "cache_idle now c \<longleftrightarrow> (ctx c \<noteq> None \<and> ref_count c = 0 \<longrightarrow> ttl_seconds c \<noteq> 0
     \<and> (0 < ttl_seconds c \<longrightarrow>
          unload_pending c \<and> (\<exists>d \<in> set (timers c). d \<le> now + 1000 * ttl_seconds c)))"

lemma cache_idle_later: "cache_idle now c \<Longrightarrow> now \<le> t \<Longrightarrow> cache_idle t c"
  by (auto simp: cache_idle_def) (meson add_mono order_refl order_trans)

lemma cache_idle_acquire:
  assumes "cache_ok path c"
  shows "cache_idle now (snd (cache_acquire load path c))"
  using assms by (auto simp: cache_idle_def cache_acquire_def cancelUnloadLocked_def cache_ok_def Let_def
      split: option.splits)

lemma cache_idle_release:
  assumes "0 < ref_count c"
  shows "cache_idle now (cache_release now c)"
  using assms by (auto simp: cache_idle_def cache_release_def unloadLocked_def scheduleUnloadLocked_def Let_def
      split: option.split)

lemma cache_idle_timer:
  assumes "cache_idle now c" and "0 < ttl_seconds c"
  shows "cache_idle now (timer_wake (c\<lparr>timers := remove1 d (timers c)\<rparr>))"
  using assms by (auto simp: cache_idle_def timer_wake_def unloadLocked_def split: option.splits if_splits)

lemma unload_ttl [simp]: "ttl_seconds (unloadLocked c) = ttl_seconds c"
  by (simp add: unloadLocked_def split: option.split)

lemma unload_timers [simp]: "timers (unloadLocked c) = timers c"
  by (simp add: unloadLocked_def split: option.split)

lemma acquire_frame [simp]:
  "ttl_seconds (snd (cache_acquire load path c)) = ttl_seconds c"
  "timers (snd (cache_acquire load path c)) = timers c"
  by (auto simp: cache_acquire_def cancelUnloadLocked_def Let_def split: option.splits)

lemma release_ttl [simp]: "ttl_seconds (cache_release now c) = ttl_seconds c"
  by (simp add: cache_release_def scheduleUnloadLocked_def Let_def)

text \<open>A timer is only ever started with a positive time to live, which never changes.\<close>

definition sched_inv :: "cache_sys \<Rightarrow> bool" where
  "sched_inv s \<longleftrightarrow> cache_idle (clock s) (cache s) \<and> (timers (cache s) \<noteq> [] \<longrightarrow> 0 < ttl_seconds (cache s))"

lemma sched_step:
  assumes "cache_step path s s'" and "cache_sys_inv path s" and "sched_inv s"
  shows "sched_inv s'"
  using assms
proof (induction rule: cache_step.induct)
  case (acquire_ok load s x c)
  then show ?case
    using cache_idle_acquire [of path "cache s" "clock s" load] acquire_frame [of load path "cache s"]
    by (simp add: sched_inv_def cache_sys_inv_def)
next
  case (acquire_failed load s e c)
  then show ?case
    using cache_idle_acquire [of path "cache s" "clock s" load] acquire_frame [of load path "cache s"]
    by (simp add: sched_inv_def cache_sys_inv_def)
next
  case (release x s)
  then have "0 < size (held s)" by (auto simp: nonempty_has_size [symmetric])
  with release.prems have "0 < ref_count (cache s)" by (simp add: cache_sys_inv_def)
  with release.prems show ?case using cache_idle_release [of "cache s" "clock s"]
    by (auto simp: sched_inv_def cache_release_def scheduleUnloadLocked_def Let_def)
next
  case (timer d s)
  then have "0 < ttl_seconds (cache s)" by (auto simp: sched_inv_def)
  with timer.prems show ?case using cache_idle_timer [of "clock s" "cache s" d]
    by (simp add: sched_inv_def timer_wake_def)
next
  case (tick s t)
  then show ?case using cache_idle_later by (auto simp: sched_inv_def)
qed

lemma sched_reachable: "cache_reachable path s \<Longrightarrow> sched_inv s"
proof (induction rule: cache_reachable.induct)
  case (start ttl t)
  then show ?case by (simp add: sched_inv_def cache_idle_def configure_def new_cache_def)
next
  case (step s s')
  then show ?case using sched_step cache_reachable_inv by blast
qed

section \<open>Properties\<close>

definition loaded_cache :: "int \<Rightarrow> int list \<Rightarrow> int \<Rightarrow> bool \<Rightarrow> model_cache" where
  "loaded_cache ttl ts n p = \<lparr>ctx = Some 0, loaded_path = ''m'', ref_count = n, ttl_seconds = ttl,
     unload_pending = p, timers = ts, freed = [], loads = 1\<rparr>"

lemma loaded_reachable:
  "cache_reachable ''m'' \<lparr>cache = loaded_cache 10 [] 1 False, held = {#0#}, clock = 0\<rparr>"
  using cache_reachable.step [OF cache_reachable.start [of "''m''" 10 0]
      acquire_ok [of "\<lambda>_. True" "''m''" _ 0 "loaded_cache 10 [] 1 False"]]
  by (simp add: configure_def new_cache_def cache_acquire_def cancelUnloadLocked_def loaded_cache_def)

lemma released_reachable:
  "cache_reachable ''m'' \<lparr>cache = loaded_cache 10 [10000] 0 True, held = {#}, clock = 0\<rparr>"
  using cache_reachable.step [OF loaded_reachable cache_step.release [of 0]]
  by (simp add: cache_release_def scheduleUnloadLocked_def loaded_cache_def)

lemma reacquired_reachable:
  "cache_reachable ''m'' \<lparr>cache = loaded_cache 10 [10000] 1 False, held = {#0#}, clock = 9000\<rparr>"
proof -
  have "cache_reachable ''m'' \<lparr>cache = loaded_cache 10 [10000] 0 True, held = {#}, clock = 9000\<rparr>"
    using cache_reachable.step [OF released_reachable tick [of _ 9000]] by simp
  from cache_reachable.step [OF this
      acquire_ok [of "\<lambda>_. True" "''m''" _ 0 "loaded_cache 10 [10000] 1 False"]] show ?thesis
    by (simp add: cache_acquire_def cancelUnloadLocked_def loaded_cache_def)
qed

text \<open>C16: A step that takes the loaded model away frees exactly it, and leaves no session holding a
  reference; the model is never replaced by another one.\<close>

theorem unload_only_when_idle:
  assumes "cache_reachable path s" and "cache_step path s s'"
    and "ctx (cache s) = Some x" and "ctx (cache s') \<noteq> Some x"
  shows "ctx (cache s') = None \<and> freed (cache s') = x # freed (cache s) \<and> held s' = {#}"
  using assms(2) cache_reachable_inv [OF assms(1)] assms(3,4)
proof (cases rule: cache_stepE)
  case (release y)
  let ?c = "cache_release (clock s) (cache s)"
  have "ref_count (cache s') = int (size (held s'))"
    using cache_step_inv [OF assms(2) cache_reachable_inv [OF assms(1)]] by (simp add: cache_sys_inv_def)
  with release assms(3,4) show ?thesis
    by (auto simp: cache_release_def unloadLocked_def scheduleUnloadLocked_def Let_def split: if_splits)
next
  case (timer d)
  with cache_reachable_inv [OF assms(1)] assms(3,4) show ?thesis
    by (auto simp: cache_sys_inv_def timer_wake_def unloadLocked_def split: if_splits)
qed (auto simp: cache_sys_inv_def cache_ok_def cache_acquire_def cancelUnloadLocked_def Let_def
      split: option.splits if_splits)

definition after_timer :: cache_sys where
  "after_timer = \<lparr>cache = \<lparr>ctx = None, loaded_path = [], ref_count = 0, ttl_seconds = 10,
     unload_pending = False, timers = [], freed = [0], loads = 1\<rparr>, held = {#}, clock = 10000\<rparr>"

lemma fired_step:
  "cache_step ''m'' \<lparr>cache = loaded_cache 10 [10000] 0 True, held = {#}, clock = 10000\<rparr> after_timer"
  using timer [of 10000 "\<lparr>cache = loaded_cache 10 [10000] 0 True, held = {#}, clock = 10000\<rparr>" "''m''"]
  by (simp add: loaded_cache_def timer_wake_def unloadLocked_def after_timer_def)

lemma due_reachable:
  "cache_reachable ''m'' \<lparr>cache = loaded_cache 10 [10000] 0 True, held = {#}, clock = 10000\<rparr>"
  using cache_reachable.step [OF released_reachable tick [of _ 10000]] by simp

theorem unload_only_when_idle_witness:
  "ctx (cache after_timer) = None \<and> freed (cache after_timer) = [0] \<and> held after_timer = {#}"
  using unload_only_when_idle [OF due_reachable fired_step, of 0]
  by (simp add: loaded_cache_def after_timer_def)

text \<open>C15: An idle model does not stay loaded: with a positive time to live, whenever a model is loaded
  and no session holds it, a timer that expires within that time is running, and its firing
  unloads the model; with a time to live of 0 a loaded model is always in use.\<close>

theorem idle_model_gets_unloaded:
  assumes "cache_reachable path s" and "ctx (cache s) = Some x" and "held s = {#}"
    and "0 \<le> ttl_seconds (cache s)"
  shows "\<exists>d s'. d \<in> set (timers (cache s)) \<and> d \<le> clock s + 1000 * ttl_seconds (cache s)
    \<and> cache_step path (s\<lparr>clock := max d (clock s)\<rparr>) s' \<and> ctx (cache s') = None"
proof -
  have r: "ref_count (cache s) = 0"
    using cache_reachable_inv [OF assms(1)] assms(3) by (simp add: cache_sys_inv_def)
  obtain d where d: "d \<in> set (timers (cache s))" "d \<le> clock s + 1000 * ttl_seconds (cache s)"
    and p: "unload_pending (cache s)"
    using sched_reachable [OF assms(1)] assms(2,4) r by (auto simp: sched_inv_def cache_idle_def)
  let ?s = "s\<lparr>clock := max d (clock s)\<rparr>"
  have "cache_step path ?s (?s\<lparr>cache := timer_wake ((cache ?s)\<lparr>timers := remove1 d (timers (cache ?s))\<rparr>)\<rparr>)"
    by (rule timer) (simp_all add: d)
  moreover have "ctx (timer_wake ((cache s)\<lparr>timers := remove1 d (timers (cache s))\<rparr>)) = None"
    using r p by (simp add: timer_wake_def unloadLocked_def split: option.split)
  ultimately show ?thesis using d by fastforce
qed

theorem idle_model_gets_unloaded_witness:
  "\<exists>d s'. d \<in> set [10000::int] \<and> d \<le> 0 + 1000 * 10
    \<and> cache_step ''m'' \<lparr>cache = loaded_cache 10 [10000] 0 True, held = {#}, clock = max d 0\<rparr> s'
    \<and> ctx (cache s') = None"
  using idle_model_gets_unloaded [OF released_reachable, of 0] by (simp add: loaded_cache_def)

text \<open>C33: A timer that was started by an earlier release is not stopped by an acquire, only
  disarmed, and the next release arms it again: if one is left over when the last reference
  goes, its firing frees the model before the time to live since that release is over.\<close>

theorem stale_timer_unloads_early:
  assumes "cache_reachable path s" and "held s = {#x#}" and "0 < ttl_seconds (cache s)"
    and "d \<in> set (timers (cache s))" and "clock s \<le> t" and "d \<le> t"
    and "t < clock s + 1000 * ttl_seconds (cache s)"
  shows "\<exists>s1 s2. cache_step path s s1 \<and> held s1 = {#}
    \<and> cache_step path (s1\<lparr>clock := t\<rparr>) s2 \<and> ctx (cache s2) = None \<and> x \<in> set (freed (cache s2))"
proof -
  have inv: "cache_sys_inv path s" using assms(1) by (rule cache_reachable_inv)
  let ?c = "cache_release (clock s) (cache s)"
  let ?s1 = "s\<lparr>cache := ?c, held := {#}\<rparr>"
  let ?s2 = "?s1\<lparr>clock := t, cache := timer_wake (?c\<lparr>timers := remove1 d (timers ?c)\<rparr>)\<rparr>"
  have x: "ctx (cache s) = Some x" and r: "ref_count (cache s) = 1"
    using inv assms(2) by (simp_all add: cache_sys_inv_def)
  have c: "?c = scheduleUnloadLocked (clock s) ((cache s)\<lparr>ref_count := 0\<rparr>)"
    using r assms(3) by (simp add: cache_release_def)
  have s1: "cache_step path s ?s1"
    using cache_step.release [of x s path] assms(2) by simp
  have s2: "cache_step path (?s1\<lparr>clock := t\<rparr>) ?s2"
    using timer [of d "?s1\<lparr>clock := t\<rparr>" path] assms(4,6) by (simp add: c scheduleUnloadLocked_def)
  have "ctx (cache ?s2) = None \<and> x \<in> set (freed (cache ?s2))"
    using x by (simp add: c scheduleUnloadLocked_def timer_wake_def unloadLocked_def)
  with s1 s2 show ?thesis by fastforce
qed

theorem stale_timer_unloads_early_witness:
  "\<exists>s1 s2. cache_step ''m'' \<lparr>cache = loaded_cache 10 [10000] 1 False, held = {#0#}, clock = 9000\<rparr> s1
    \<and> held s1 = {#} \<and> cache_step ''m'' (s1\<lparr>clock := 10000\<rparr>) s2
    \<and> ctx (cache s2) = None \<and> 0 \<in> set (freed (cache s2))"
  by (rule stale_timer_unloads_early [OF reacquired_reachable, of _ 10000])
    (simp_all add: loaded_cache_def)

end
