(* ===== verification/Json.thy ===== *)
theory Json
  imports Float32
begin

text \<open>
  The values of the JSON library (\<open>nlohmann::json\<close>) as far as the program looks at them,
  and the accessors it calls. Parsing and printing are the library's own: they are
  parameters of the definitions that use them. A number written with a fraction or an
  exponent is given by the float that \<open>get<float>()\<close> returns for it.
\<close>

datatype json =
    JNull
  | JBool bool
  | JInt int
  | JFloat float32
  | JStr string
  | JArr "json list"
  | JObj "(string \<times> json) list"

text \<open>\<open>j.contains(k)\<close> is false on a value that is not an object.\<close>

fun contains :: "json \<Rightarrow> string \<Rightarrow> bool" where
  "contains (JObj kvs) k = (map_of kvs k \<noteq> None)"
| "contains _ k = False"

text \<open>\<open>j[k]\<close> for a key that the object contains.\<close>

fun field :: "json \<Rightarrow> string \<Rightarrow> json" where
  "field (JObj kvs) k = (case map_of kvs k of Some v \<Rightarrow> v | None \<Rightarrow> JNull)"
| "field _ k = JNull"

fun is_string :: "json \<Rightarrow> bool" where
  "is_string (JStr _) = True"
| "is_string _ = False"

fun is_number :: "json \<Rightarrow> bool" where
  "is_number (JInt _) = True"
| "is_number (JFloat _) = True"
| "is_number _ = False"

text \<open>The conversion to \<open>std::string\<close> throws \<open>type_error\<close> on any other value.\<close>

fun get_string :: "json \<Rightarrow> string result" where
  "get_string (JStr s) = Inr s"
| "get_string _ = Inl Type_Error"

fun get_float :: "json \<Rightarrow> float32 result" where
  "get_float (JInt i) = Inr (f_of_int i)"
| "get_float (JFloat f) = Inr f"
| "get_float (JBool b) = Inr (FNum (of_bool b))"
| "get_float _ = Inl Type_Error"

text \<open>\<open>j.value(k, d)\<close> for a boolean default.\<close>

fun value_bool :: "json \<Rightarrow> string \<Rightarrow> bool \<Rightarrow> bool result" where
  "value_bool (JObj kvs) k d =
     (case map_of kvs k of None \<Rightarrow> Inr d | Some (JBool b) \<Rightarrow> Inr b | Some _ \<Rightarrow> Inl Type_Error)"
| "value_bool _ k d = Inl Type_Error"

lemma get_string_Inr: "get_string j = Inr s \<longleftrightarrow> j = JStr s"
  by (cases j) auto

lemma get_string_is_string: "is_string j \<Longrightarrow> \<exists>s. get_string j = Inr s"
  by (cases j) auto

lemma get_float_is_number: "is_number j \<Longrightarrow> \<exists>f. get_float j = Inr f"
  by (cases j) auto

end
