(* ===== verification/Logging.thy ===== *)
theory Logging
  imports Prelude
begin

text \<open>
  \<open>src/log/Log.h\<close>: the line a log call writes, the stream it goes to, and the masking of
  secrets. The local time is an argument; log output is not part of the state of any other
  component.
\<close>

datatype level = DEBUG | INFO | WARN | ERROR

datatype stream = Cout | Cerr

text \<open>\<open>Log::maskKey\<close>\<close>

definition maskKey :: "string \<Rightarrow> string" where
  "maskKey key = (if length key \<le> 6 then ''***'' else take 6 key @ ''...'')"

definition tag :: "level \<Rightarrow> string" where
  "tag l = (case l of DEBUG \<Rightarrow> ''[DEBUG]'' | INFO \<Rightarrow> ''[INFO] '' | WARN \<Rightarrow> ''[WARN] '' | ERROR \<Rightarrow> ''[ERROR]'')"

definition level_rank :: "level \<Rightarrow> nat" where
  "level_rank l = (case l of DEBUG \<Rightarrow> 0 | INFO \<Rightarrow> 1 | WARN \<Rightarrow> 2 | ERROR \<Rightarrow> 3)"

text \<open>The levels are compared in the order of their declaration, from \<open>DEBUG\<close> to \<open>ERROR\<close>.\<close>

instantiation level :: linorder
begin

definition less_eq_level :: "level \<Rightarrow> level \<Rightarrow> bool" where
  "l \<le> k \<longleftrightarrow> level_rank l \<le> level_rank k"

definition less_level :: "level \<Rightarrow> level \<Rightarrow> bool" where
  "l < k \<longleftrightarrow> level_rank l < level_rank k"

instance
proof
  fix l k :: level
  assume "l \<le> k" and "k \<le> l"
  then show "l = k" by (cases l; cases k) (simp_all add: less_eq_level_def level_rank_def)
qed (auto simp: less_eq_level_def less_level_def)

end

text \<open>
  The time of day, from the fields of the broken-down local time and the milliseconds since the
  epoch: \<open>%H:%M:%S\<close> and three digits.
\<close>

definition timestamp :: "nat \<Rightarrow> nat \<Rightarrow> nat \<Rightarrow> nat \<Rightarrow> string" where
  "timestamp hour minute second epoch_ms =
     pad_left 2 (to_string_nat hour) @ '':'' @ pad_left 2 (to_string_nat minute) @ '':''
       @ pad_left 2 (to_string_nat second) @ ''.'' @ pad_left 3 (to_string_nat (epoch_ms mod 1000))"

definition log_write :: "string \<Rightarrow> level \<Rightarrow> string \<Rightarrow> string \<Rightarrow> stream \<times> string" where
  "log_write ts l msg ctx =
     (if WARN \<le> l then Cerr else Cout,
      ts @ '' '' @ tag l @ (if ctx \<noteq> [] then '' ['' @ ctx @ '']'' else []) @ '' '' @ msg @ [CHR 0x0A])"

text \<open>The four calls; \<open>no_debug\<close> is whether the program was compiled with \<open>LOG_NO_DEBUG\<close>.\<close>

definition log_call :: "bool \<Rightarrow> level \<Rightarrow> string \<Rightarrow> string \<Rightarrow> string \<Rightarrow> (stream \<times> string) option" where
  "log_call no_debug l ts msg ctx =
     (if l = DEBUG \<and> no_debug then None else Some (log_write ts l msg ctx))"

lemma level_rank_simps [simp]:
  "level_rank DEBUG = 0" "level_rank INFO = 1" "level_rank WARN = 2" "level_rank ERROR = 3"
  by (simp_all add: level_rank_def)

text \<open>Warnings and errors go to the error stream, the rest to the output.\<close>

lemma log_write_stream: "fst (log_write ts l msg c) = Cerr \<longleftrightarrow> l = WARN \<or> l = ERROR"
  by (cases l) (simp_all add: log_write_def less_eq_level_def)

text \<open>Every time stamp of a day has the same length, so the tags of all lines are aligned.\<close>

lemma to_string_short: "n < 10 \<Longrightarrow> length (to_string_nat n) = 1" "10 \<le> n \<Longrightarrow> n < 100 \<Longrightarrow> length (to_string_nat n) = 2"
  "100 \<le> n \<Longrightarrow> n < 1000 \<Longrightarrow> length (to_string_nat n) = 3"
proof -
  have one: "length (to_string_nat n) = 1" if "n < 10" for n using that by (simp add: to_string_nat.simps)
  have two: "length (to_string_nat n) = 2" if "10 \<le> n" "n < 100" for n
    using that one [of "n div 10"] by (simp add: to_string_nat.simps [of n])
  show "n < 10 \<Longrightarrow> length (to_string_nat n) = 1" "10 \<le> n \<Longrightarrow> n < 100 \<Longrightarrow> length (to_string_nat n) = 2"
    using one two by simp_all
  show "100 \<le> n \<Longrightarrow> n < 1000 \<Longrightarrow> length (to_string_nat n) = 3"
    using two [of "n div 10"] by (simp add: to_string_nat.simps [of n])
qed

lemma pad_two: "n < 100 \<Longrightarrow> length (pad_left 2 (to_string_nat n)) = 2"
  by (cases "n < 10") (simp_all add: pad_left_def to_string_short)

lemma pad_three: "n < 1000 \<Longrightarrow> length (pad_left 3 (to_string_nat n)) = 3"
  by (cases "n < 10"; cases "n < 100") (simp_all add: pad_left_def to_string_short)

lemma timestamp_length: "h < 24 \<Longrightarrow> m < 60 \<Longrightarrow> s < 61 \<Longrightarrow> length (timestamp h m s ms) = 12"
  by (simp add: timestamp_def pad_two pad_three)

text \<open>The mask shows at most six characters of a key: keys that share them have the same mask.\<close>

lemma maskKey_hides: "6 < length k \<Longrightarrow> 6 < length k' \<Longrightarrow> take 6 k = take 6 k' \<Longrightarrow> maskKey k = maskKey k'"
  by (simp add: maskKey_def)

lemma maskKey_hides_short: "length k \<le> 6 \<Longrightarrow> length k' \<le> 6 \<Longrightarrow> maskKey k = maskKey k'"
  by (simp add: maskKey_def)

end
