(* ===== verification/Auth.thy ===== *)
theory Auth
  imports Json Logging
begin

unbundle bit_operations_syntax

text \<open>
  \<open>src/auth/\<close> and \<open>src/server/AuthManager.cpp\<close>: the cache of validation results, the client
  of the external validation service, and the manager that decides between static token,
  cache and service. The network (name resolution and one HTTP exchange) and the JSON
  parser are parameters.
\<close>

section \<open>Configuration\<close>

record api_auth_config =
  api_base_url :: string
  api_secret_key :: string
  timeout_seconds :: int
  cache_ttl_seconds :: int
  static_token :: string

datatype auth_result = Allowed | Denied | ApiUnavailable

section \<open>The cache\<close>

record cache_entry =
  is_valid :: bool
  expires_at :: int

type_synonym auth_cache = "string \<rightharpoonup> cache_entry"

definition ac_get :: "int \<Rightarrow> string \<Rightarrow> auth_cache \<Rightarrow> bool option \<times> auth_cache" where
  "ac_get now token m = (case m token of
       None \<Rightarrow> (None, m)
     | Some e \<Rightarrow> if expires_at e \<le> now then (None, m(token := None)) else (Some (is_valid e), m))"

definition ac_put :: "int \<Rightarrow> string \<Rightarrow> bool \<Rightarrow> int \<Rightarrow> auth_cache \<Rightarrow> auth_cache" where
  "ac_put now token valid ttl m = m(token \<mapsto> \<lparr>is_valid = valid, expires_at = now + 1000 * ttl\<rparr>)"

text \<open>What the manager relies on: a map whose entries carry the time at which they end.\<close>

locale ttl_cache =
  fixes get :: "int \<Rightarrow> 'k \<Rightarrow> 'm \<Rightarrow> 'v option \<times> 'm" and put :: "int \<Rightarrow> 'k \<Rightarrow> 'v \<Rightarrow> int \<Rightarrow> 'm \<Rightarrow> 'm"
    and entry :: "'m \<Rightarrow> 'k \<Rightarrow> ('v \<times> int) option"
  assumes get_hit: "entry m k = Some (v, e) \<Longrightarrow> now < e \<Longrightarrow> get now k m = (Some v, m)"
    and get_expired: "entry m k = Some (v, e) \<Longrightarrow> e \<le> now \<Longrightarrow>
      fst (get now k m) = None \<and> entry (snd (get now k m)) = (entry m)(k := None)"
    and get_absent: "entry m k = None \<Longrightarrow> get now k m = (None, m)"
    and put_entry: "entry (put now k v ttl m) = (entry m)(k := Some (v, now + 1000 * ttl))"
begin

lemma get_put_fresh: "now < t + 1000 * ttl \<Longrightarrow> fst (get now k (put t k v ttl m)) = Some v"
  using get_hit [of "put t k v ttl m" k v "t + 1000 * ttl" now] by (simp add: put_entry)

lemma get_put_expired: "t + 1000 * ttl \<le> now \<Longrightarrow> fst (get now k (put t k v ttl m)) = None"
  using get_expired [of "put t k v ttl m" k v "t + 1000 * ttl" now] by (simp add: put_entry)

lemma get_Some: "fst (get now k m) = Some v \<Longrightarrow> \<exists>e. entry m k = Some (v, e) \<and> now < e"
proof (cases "entry m k")
  case None
  then show "fst (get now k m) = Some v \<Longrightarrow> \<exists>e. entry m k = Some (v, e) \<and> now < e"
    by (simp add: get_absent)
next
  case (Some p)
  obtain w e where p: "p = (w, e)" by fastforce
  assume "fst (get now k m) = Some v"
  then show "\<exists>e. entry m k = Some (v, e) \<and> now < e"
    using get_hit [of m k w e now] get_expired [of m k w e now] Some p by (cases "now < e") auto
qed

text \<open>A lookup only ever removes an entry, and only one that has ended.\<close>

lemma get_entries: "entry (snd (get now k m)) j = Some x \<Longrightarrow> entry m j = Some x"
proof (cases "entry m k")
  case None
  then show "entry (snd (get now k m)) j = Some x \<Longrightarrow> entry m j = Some x" by (simp add: get_absent)
next
  case (Some p)
  obtain w e where p: "p = (w, e)" by fastforce
  assume "entry (snd (get now k m)) j = Some x"
  then show "entry m j = Some x"
    using get_hit [of m k w e now] get_expired [of m k w e now] Some p
    by (cases "now < e") (auto split: if_splits)
qed

end

definition ac_entry :: "auth_cache \<Rightarrow> string \<Rightarrow> (bool \<times> int) option" where
  "ac_entry m k = map_option (\<lambda>e. (is_valid e, expires_at e)) (m k)"

interpretation ac: ttl_cache ac_get ac_put ac_entry
  by unfold_locales (auto simp: ac_get_def ac_put_def ac_entry_def fun_eq_iff)

section \<open>The client of the validation service\<close>

text \<open>
  The URL pattern \<open>^(https?)://([^/]+)(/.*)?\<close>, matched against the whole URL: the host is
  everything up to the first slash, and the dot matches no line break.
\<close>

definition line_break :: "char \<Rightarrow> bool" where
  "line_break c = (c = CHR 0x0A \<or> c = CHR 0x0D)"

definition strip_scheme :: "string \<Rightarrow> (string \<times> string) option" where
  "strip_scheme url =
     (if take 8 url = ''https://'' then Some (''https'', drop 8 url)
      else if take 7 url = ''http://'' then Some (''http'', drop 7 url)
      else None)"

definition parseUrl :: "string \<Rightarrow> (string \<times> string \<times> string) option" where
  "parseUrl url = (case strip_scheme url of
       None \<Rightarrow> None
     | Some (scheme, rest) \<Rightarrow>
         let host = takeWhile (\<lambda>c. c \<noteq> CHR ''/'') rest;
             base_path = dropWhile (\<lambda>c. c \<noteq> CHR ''/'') rest
         in if host \<noteq> [] \<and> list_all (\<lambda>c. \<not> line_break c) base_path
            then Some (scheme, host, base_path) else None)"

record endpoint =
  is_v6 :: bool
  is_link_local :: bool
  address :: string

fun first_routable :: "endpoint list \<Rightarrow> endpoint option" where
  "first_routable [] = None"
| "first_routable (ep # eps) = (if is_v6 ep \<and> is_link_local ep then first_routable eps else Some ep)"

text \<open>The resolver returns the addresses of a host and port, or throws.\<close>

type_synonym resolver = "string \<Rightarrow> string \<Rightarrow> endpoint list result"

definition resolveEndpoint :: "resolver \<Rightarrow> string \<Rightarrow> string \<Rightarrow> endpoint result" where
  "resolveEndpoint resolve host port = bind_result (resolve host port) (\<lambda>eps.
     case first_routable eps of
       None \<Rightarrow> Inl (Runtime_Error (''no routable address for '' @ host))
     | Some ep \<Rightarrow> Inr ep)"

record http_request =
  req_endpoint :: endpoint
  req_tls :: bool
  req_target :: string
  req_host :: string
  req_authorization :: string
  req_api_key :: string
  req_timeout :: int

record network =
  resolve :: resolver
  exchange :: "http_request \<Rightarrow> (int \<times> string) result"
  parse_body :: "string \<Rightarrow> json option"

definition classify :: "network \<Rightarrow> int \<times> string \<Rightarrow> auth_result" where
  "classify net response = (case response of (status, body) \<Rightarrow>
     if status = 401 \<or> status = 403 then Denied
     else if status = 200 then
       (case parse_body net body of
          None \<Rightarrow> ApiUnavailable
        | Some j \<Rightarrow> (case value_bool j ''is_active'' False of
              Inl _ \<Rightarrow> ApiUnavailable
            | Inr active \<Rightarrow> if active then Allowed else Denied))
     else ApiUnavailable)"

definition api_validate :: "network \<Rightarrow> api_auth_config \<Rightarrow> string \<Rightarrow> auth_result" where
  "api_validate net cfg client_key = (case parseUrl (api_base_url cfg) of
       None \<Rightarrow> ApiUnavailable
     | Some (scheme, host, base_path) \<Rightarrow>
         let use_tls = (scheme = ''https'');
             port = (if use_tls then ''443'' else ''80'');
             target = base_path @ ''/client''
         in case bind_result (resolveEndpoint (resolve net) host port) (\<lambda>ep.
                exchange net \<lparr>req_endpoint = ep, req_tls = use_tls, req_target = target,
                  req_host = host, req_authorization = ''Bearer '' @ api_secret_key cfg,
                  req_api_key = client_key, req_timeout = timeout_seconds cfg\<rparr>) of
              Inl _ \<Rightarrow> ApiUnavailable
            | Inr response \<Rightarrow> classify net response)"

section \<open>The manager\<close>

record auth_manager =
  api_client :: "api_auth_config option"
  acache :: auth_cache
  auth_enabled :: bool
  ttl_secs :: int
  stat_token :: string

definition new_auth_manager :: "api_auth_config \<Rightarrow> auth_manager" where
  "new_auth_manager cfg =
     \<lparr>api_client = (if api_base_url cfg \<noteq> [] then Some cfg else None),
      acache = Map.empty,
      auth_enabled = (api_base_url cfg \<noteq> [] \<or> static_token cfg \<noteq> []),
      ttl_secs = cache_ttl_seconds cfg,
      stat_token = static_token cfg\<rparr>"

text \<open>The loop of the constant-time comparison, with its accumulator.\<close>

fun diff_loop :: "int \<Rightarrow> (char \<times> char) list \<Rightarrow> int" where
  "diff_loop diff [] = diff"
| "diff_loop diff ((x, y) # r) = diff_loop (diff OR ((of_char x :: int) XOR of_char y)) r"

definition constantTimeEqual :: "string \<Rightarrow> string \<Rightarrow> bool" where
  "constantTimeEqual a b = (if length a \<noteq> length b then False else diff_loop 0 (zip a b) = 0)"

definition isAuthEnabled :: "auth_manager \<Rightarrow> bool" where
  "isAuthEnabled m = auth_enabled m"

text \<open>
  \<open>validate\<close> reads the clock twice: in the lookup (\<open>t0\<close>) and, after the call of the
  service, when the answer is stored (\<open>t1\<close>). Without a client the pointer would be null;
  that case is unreachable (\<open>manager_ok\<close> below) and denies.
\<close>

definition auth_validate :: "network \<Rightarrow> int \<Rightarrow> int \<Rightarrow> string \<Rightarrow> auth_manager \<Rightarrow> bool \<times> auth_manager" where
  "auth_validate net t0 t1 token m =
     (if \<not> auth_enabled m then (True, m)
      else if stat_token m \<noteq> [] then (constantTimeEqual token (stat_token m), m)
      else let (cached, c) = ac_get t0 token (acache m); m1 = m\<lparr>acache := c\<rparr>
           in case cached of
                Some v \<Rightarrow> (v, m1)
              | None \<Rightarrow> (case api_client m1 of
                    None \<Rightarrow> (False, m1)
                  | Some cfg \<Rightarrow>
                      let result = api_validate net cfg token
                      in if result = ApiUnavailable then (False, m1)
                         else let allowed = (result = Allowed)
                              in (allowed, m1\<lparr>acache := ac_put t1 token allowed (ttl_secs m1) (acache m1)\<rparr>)))"

definition manager_ok :: "auth_manager \<Rightarrow> bool" where
  "manager_ok m \<longleftrightarrow> (auth_enabled m \<longrightarrow> stat_token m = [] \<longrightarrow> api_client m \<noteq> None)"


section \<open>Lemmas: comparison, URL, classification\<close>

lemma char_xor_eq_0: "((of_char x :: int) XOR of_char y = 0) \<longleftrightarrow> x = y"
proof
  assume "(of_char x :: int) XOR of_char y = 0"
  then have "((of_char x :: int) XOR of_char y) XOR of_char y = of_char y" by simp
  then have "(of_char x :: int) = of_char y" by (simp add: xor.assoc)
  then show "x = y" by simp
qed simp

lemma diff_loop_eq_0: "diff_loop d ps = 0 \<longleftrightarrow> d = 0 \<and> (\<forall>(x, y) \<in> set ps. x = y)"
  by (induction ps arbitrary: d) (auto simp: char_xor_eq_0 or_eq_0_iff)

lemma constantTimeEqual_iff: "constantTimeEqual a b \<longleftrightarrow> a = b"
proof (cases "length a = length b")
  case True
  then have "(\<forall>(x, y) \<in> set (zip a b). x = y) \<longleftrightarrow> a = b"
    by (induction a b rule: list_induct2) auto
  with True show ?thesis by (simp add: constantTimeEqual_def diff_loop_eq_0)
qed (auto simp: constantTimeEqual_def)

lemma parseUrl_sound:
  assumes "parseUrl url = Some (scheme, host, path)"
  shows "url = scheme @ ''://'' @ host @ path" and "scheme = ''http'' \<or> scheme = ''https''"
    and "host \<noteq> []" and "CHR ''/'' \<notin> set host" and "path = [] \<or> hd path = CHR ''/''"
    and "list_all (\<lambda>c. \<not> line_break c) path"
proof -
  obtain rest where r: "strip_scheme url = Some (scheme, rest)"
    and h: "host = takeWhile (\<lambda>c. c \<noteq> CHR ''/'') rest" and p: "path = dropWhile (\<lambda>c. c \<noteq> CHR ''/'') rest"
    and ok: "host \<noteq> []" "list_all (\<lambda>c. \<not> line_break c) path"
    using assms by (auto simp: parseUrl_def Let_def split: option.splits if_splits)
  have url: "url = scheme @ ''://'' @ rest" and sch: "scheme = ''http'' \<or> scheme = ''https''"
  proof -
    have "url = take 8 url @ drop 8 url" "url = take 7 url @ drop 7 url" by simp_all
    then show "url = scheme @ ''://'' @ rest" and "scheme = ''http'' \<or> scheme = ''https''"
      using r by (auto simp: strip_scheme_def simp del: append_take_drop_id split: if_splits)
  qed
  show "url = scheme @ ''://'' @ host @ path" using url by (simp add: h p)
  show "scheme = ''http'' \<or> scheme = ''https''" by (rule sch)
  show "host \<noteq> []" and "list_all (\<lambda>c. \<not> line_break c) path" by (rule ok)+
  show "CHR ''/'' \<notin> set host" by (auto simp: h dest: set_takeWhileD)
  show "path = [] \<or> hd path = CHR ''/''" using hd_dropWhile [of "\<lambda>c. c \<noteq> CHR ''/''" rest] by (auto simp: p)
qed

lemma parseUrl_complete:
  assumes "scheme = ''http'' \<or> scheme = ''https''" and "host \<noteq> []" and "CHR ''/'' \<notin> set host"
    and "path = [] \<or> hd path = CHR ''/''" and "list_all (\<lambda>c. \<not> line_break c) path"
  shows "parseUrl (scheme @ ''://'' @ host @ path) = Some (scheme, host, path)"
proof -
  have s: "strip_scheme (scheme @ ''://'' @ rest) = Some (scheme, rest)" for rest
    using assms(1) by (auto simp: strip_scheme_def)
  have all: "c \<noteq> CHR ''/''" if "c \<in> set host" for c using assms(3) that by auto
  have p: "takeWhile (\<lambda>c. c \<noteq> CHR ''/'') path = []" "dropWhile (\<lambda>c. c \<noteq> CHR ''/'') path = path"
    using assms(4) by (cases path, simp_all)+
  have "takeWhile (\<lambda>c. c \<noteq> CHR ''/'') (host @ path) = host"
    and "dropWhile (\<lambda>c. c \<noteq> CHR ''/'') (host @ path) = path"
    using all p by (simp_all add: takeWhile_append2 dropWhile_append2)
  then show ?thesis using assms(2,5) by (simp only: parseUrl_def s option.case prod.case Let_def) simp
qed

lemma classify_Allowed:
  "classify net r = Allowed \<longleftrightarrow>
    (\<exists>body j. r = (200, body) \<and> parse_body net body = Some j \<and> value_bool j ''is_active'' False = Inr True)"
  by (cases r) (auto simp: classify_def split: option.split sum.split)

lemma resolveEndpoint_Inr:
  "resolveEndpoint rs host port = Inr ep \<longleftrightarrow> (\<exists>eps. rs host port = Inr eps \<and> first_routable eps = Some ep)"
  by (auto simp: resolveEndpoint_def bind_result_eq_Inr split: option.splits)

text \<open>The request for a key, given the parts of the URL and the address of the host.\<close>

definition api_request :: "api_auth_config \<Rightarrow> string \<Rightarrow> string \<times> string \<times> string \<Rightarrow> endpoint \<Rightarrow> http_request" where
  "api_request cfg key u ep = (case u of (scheme, host, path) \<Rightarrow>
     \<lparr>req_endpoint = ep, req_tls = (scheme = ''https''), req_target = path @ ''/client'',
      req_host = host, req_authorization = ''Bearer '' @ api_secret_key cfg,
      req_api_key = key, req_timeout = timeout_seconds cfg\<rparr>)"

definition api_port :: "string \<Rightarrow> string" where
  "api_port scheme = (if scheme = ''https'' then ''443'' else ''80'')"

lemma api_validate_url:
  assumes "parseUrl (api_base_url cfg) = Some (scheme, host, path)"
  shows "api_validate net cfg key =
    (case bind_result (resolveEndpoint (resolve net) host (api_port scheme))
        (\<lambda>ep. exchange net (api_request cfg key (scheme, host, path) ep)) of
       Inl _ \<Rightarrow> ApiUnavailable | Inr r \<Rightarrow> classify net r)"
  by (simp add: api_validate_def assms api_request_def api_port_def Let_def)

lemma api_validate_Allowed:
  "api_validate net cfg key = Allowed \<longleftrightarrow>
    (\<exists>scheme host path eps ep body j.
       parseUrl (api_base_url cfg) = Some (scheme, host, path)
     \<and> resolve net host (api_port scheme) = Inr eps \<and> first_routable eps = Some ep
     \<and> exchange net (api_request cfg key (scheme, host, path) ep) = Inr (200, body)
     \<and> parse_body net body = Some j \<and> value_bool j ''is_active'' False = Inr True)"
proof (cases "parseUrl (api_base_url cfg)")
  case None
  then show ?thesis by (simp add: api_validate_def)
next
  case (Some u)
  obtain scheme host path where u: "u = (scheme, host, path)" by (metis prod_cases3)
  note eq = api_validate_url [of cfg scheme host path net key, OF Some [unfolded u]]
  have "api_validate net cfg key = Allowed \<longleftrightarrow>
      (\<exists>ep r. resolveEndpoint (resolve net) host (api_port scheme) = Inr ep
        \<and> exchange net (api_request cfg key (scheme, host, path) ep) = Inr r \<and> classify net r = Allowed)"
    unfolding eq by (auto simp: bind_result_def split: sum.split)
  then show ?thesis by (auto simp: Some u resolveEndpoint_Inr classify_Allowed)
qed

section \<open>Lemmas: the manager\<close>

lemma manager_ok_new: "manager_ok (new_auth_manager cfg)"
  by (simp add: manager_ok_def new_auth_manager_def)

lemma auth_validate_frame:
  "api_client (snd (auth_validate net t0 t1 tok m)) = api_client m"
  "auth_enabled (snd (auth_validate net t0 t1 tok m)) = auth_enabled m"
  "ttl_secs (snd (auth_validate net t0 t1 tok m)) = ttl_secs m"
  "stat_token (snd (auth_validate net t0 t1 tok m)) = stat_token m"
  by (simp_all add: auth_validate_def Let_def split: prod.split option.split)

lemma auth_validate_static:
  "auth_enabled m \<Longrightarrow> stat_token m \<noteq> [] \<Longrightarrow> auth_validate net t0 t1 tok m = (tok = stat_token m, m)"
  by (simp add: auth_validate_def constantTimeEqual_iff)

text \<open>The entries after a validation: old ones, and the answer of the service at \<open>t1\<close>.\<close>

lemma auth_validate_entry:
  assumes "ac_entry (acache (snd (auth_validate net t0 t1 tok m))) k = Some (v, e)"
  shows "ac_entry (acache m) k = Some (v, e) \<or>
    (k = tok \<and> e = t1 + 1000 * ttl_secs m \<and> (\<exists>cfg. api_client m = Some cfg \<and>
       api_validate net cfg tok \<noteq> ApiUnavailable \<and> v = (api_validate net cfg tok = Allowed)))"
proof -
  let ?c = "snd (ac_get t0 tok (acache m))"
  consider "acache (snd (auth_validate net t0 t1 tok m)) = acache m"
    | "acache (snd (auth_validate net t0 t1 tok m)) = ?c"
    | cfg where "api_client m = Some cfg" "api_validate net cfg tok \<noteq> ApiUnavailable"
      "acache (snd (auth_validate net t0 t1 tok m)) =
         ac_put t1 tok (api_validate net cfg tok = Allowed) (ttl_secs m) ?c"
  proof (cases "auth_enabled m \<and> stat_token m = []")
    case True
    then show thesis
      using that by (cases "ac_get t0 tok (acache m)"; cases "fst (ac_get t0 tok (acache m))";
        cases "api_client m"; cases "api_validate net (the (api_client m)) tok = ApiUnavailable")
        (auto simp: auth_validate_def Let_def)
  next
    case False
    then have "acache (snd (auth_validate net t0 t1 tok m)) = acache m"
      by (simp add: auth_validate_def)
    then show thesis by (rule that(1))
  qed
  then show ?thesis
  proof cases
    case 2
    then show ?thesis using assms ac.get_entries [of t0 tok "acache m" k] by auto
  next
    case 3
    then show ?thesis using assms ac.get_entries [of t0 tok "acache m" k]
      by (auto simp: ac.put_entry split: if_splits)
  qed (use assms in auto)
qed

text \<open>An accepting validation in cache mode: a live positive entry, or the service says so now.\<close>

lemma auth_validate_accept:
  assumes "fst (auth_validate net t0 t1 tok m)" and "auth_enabled m" and "stat_token m = []"
  shows "(\<exists>e. ac_entry (acache m) tok = Some (True, e) \<and> t0 < e) \<or>
    (\<exists>cfg. api_client m = Some cfg \<and> api_validate net cfg tok = Allowed)"
proof (cases "fst (ac_get t0 tok (acache m))")
  case None
  with assms show ?thesis
    by (auto simp: auth_validate_def Let_def split: prod.splits option.splits if_splits)
next
  case (Some v)
  then have "fst (auth_validate net t0 t1 tok m) = v"
    using assms(2,3) by (auto simp: auth_validate_def Let_def split: prod.splits)
  with Some assms(1) ac.get_Some [of t0 tok "acache m" v] show ?thesis by simp
qed

lemma auth_validate_hit:
  assumes "auth_enabled m" and "stat_token m = []" and "ac_entry (acache m) tok = Some (v, e)" and "t0 < e"
  shows "auth_validate net t0 t1 tok m = (v, m)"
  using assms ac.get_hit [OF assms(3,4)] by (simp add: auth_validate_def)

lemma auth_validate_miss:
  assumes "auth_enabled m" and "stat_token m = []" and "api_client m = Some cfg"
    and "\<forall>v e. ac_entry (acache m) tok = Some (v, e) \<longrightarrow> e \<le> t0"
  shows "fst (auth_validate net t0 t1 tok m) = (api_validate net cfg tok = Allowed)
    \<and> (api_validate net cfg tok = ApiUnavailable \<longrightarrow>
         ac_entry (acache (snd (auth_validate net t0 t1 tok m))) tok = None)"
proof -
  obtain c where g: "ac_get t0 tok (acache m) = (None, c)" and c: "ac_entry c tok = None"
    using assms(4) ac.get_absent [of "acache m" tok t0] ac.get_expired [of "acache m" tok _ _ t0]
    by (cases "ac_entry (acache m) tok"; cases "ac_get t0 tok (acache m)") auto
  show ?thesis using assms(1-3) c by (auto simp: auth_validate_def g Let_def)
qed

section \<open>Runs of validations\<close>

text \<open>
  A run of the manager: each event is a validation at a time, with the network as it is
  then. An event happens at one time here (\<open>t0 = t1\<close>) and later events not earlier.
\<close>

record auth_event =
  ev_time :: int
  ev_token :: string
  ev_net :: network

fun run_auth :: "auth_event list \<Rightarrow> auth_manager \<Rightarrow> auth_manager" where
  "run_auth [] m = m"
| "run_auth (e # es) m = run_auth es (snd (auth_validate (ev_net e) (ev_time e) (ev_time e) (ev_token e) m))"

lemma run_auth_frame:
  "api_client (run_auth es m) = api_client m" "auth_enabled (run_auth es m) = auth_enabled m"
  "ttl_secs (run_auth es m) = ttl_secs m" "stat_token (run_auth es m) = stat_token m"
  by (induction es arbitrary: m) (simp_all add: auth_validate_frame)

text \<open>Every entry of the cache goes back to an answer of the service during the run.\<close>

lemma run_auth_entry:
  assumes "ac_entry (acache (run_auth es m)) k = Some (v, x)"
  shows "ac_entry (acache m) k = Some (v, x) \<or>
    (\<exists>e \<in> set es. ev_token e = k \<and> x = ev_time e + 1000 * ttl_secs m \<and>
       (\<exists>cfg. api_client m = Some cfg \<and> v = (api_validate (ev_net e) cfg k = Allowed)))"
  using assms
proof (induction es arbitrary: m)
  case (Cons e es)
  let ?m = "snd (auth_validate (ev_net e) (ev_time e) (ev_time e) (ev_token e) m)"
  from Cons.IH [of ?m] Cons.prems
  consider "ac_entry (acache ?m) k = Some (v, x)"
    | "\<exists>e' \<in> set es. ev_token e' = k \<and> x = ev_time e' + 1000 * ttl_secs m \<and>
       (\<exists>cfg. api_client m = Some cfg \<and> v = (api_validate (ev_net e') cfg k = Allowed))"
    by (auto simp: auth_validate_frame)
  then show ?case
  proof cases
    case 1
    from auth_validate_entry [OF 1] show ?thesis by auto
  next
    case 2
    then show ?thesis by auto
  qed
qed simp

section \<open>Properties\<close>

definition offline :: network where
  "offline = \<lparr>resolve = (\<lambda>_ _. Inl System_Error), exchange = (\<lambda>_. Inl System_Error), parse_body = (\<lambda>_. None)\<rparr>"

text \<open>A service that answers every request with the given status and \<open>is_active\<close> field.\<close>

definition answering :: "int \<Rightarrow> bool \<Rightarrow> network" where
  "answering status active = \<lparr>resolve = (\<lambda>_ _. Inr [\<lparr>is_v6 = False, is_link_local = False, address = ''10.0.0.1''\<rparr>]),
     exchange = (\<lambda>_. Inr (status, ''body'')), parse_body = (\<lambda>_. Some (JObj [(''is_active'', JBool active)]))\<rparr>"

definition api_cfg :: api_auth_config where
  "api_cfg = \<lparr>api_base_url = ''http://auth/v1'', api_secret_key = ''s'', timeout_seconds = 5,
     cache_ttl_seconds = 300, static_token = []\<rparr>"

lemma api_cfg_answer:
  "api_validate (answering 200 a) api_cfg k = (if a then Allowed else Denied)"
  "api_validate offline api_cfg k = ApiUnavailable"
  by (simp_all add: api_validate_def parseUrl_def strip_scheme_def api_cfg_def answering_def offline_def
      resolveEndpoint_def classify_def line_break_def Let_def)

text \<open>C30: With authentication configured by a static token, a token is accepted exactly when it is
  that token, whatever was validated before, whatever the network does, and also when a
  validation service is configured as well; nothing is cached.\<close>

theorem static_token_exact:
  assumes "static_token cfg \<noteq> []"
  shows "auth_validate net t0 t1 tok (run_auth es (new_auth_manager cfg))
    = (tok = static_token cfg, new_auth_manager cfg)"
proof -
  have m: "auth_enabled (new_auth_manager cfg)" "stat_token (new_auth_manager cfg) = static_token cfg"
    using assms by (simp_all add: new_auth_manager_def)
  have "run_auth es (new_auth_manager cfg) = new_auth_manager cfg"
    using assms m by (induction es) (simp_all add: auth_validate_static)
  then show ?thesis using assms m by (simp add: auth_validate_static)
qed

theorem static_token_exact_witness:
  "fst (auth_validate offline 0 0 ''abc'' (new_auth_manager (api_cfg\<lparr>static_token := ''abc''\<rparr>)))
   \<and> \<not> fst (auth_validate (answering 200 True) 0 0 ''abd'' (new_auth_manager (api_cfg\<lparr>static_token := ''abc''\<rparr>)))"
  using static_token_exact [of "api_cfg\<lparr>static_token := ''abc''\<rparr>" _ 0 0 _ "[]"] by simp

text \<open>C8: With a validation service, a token is accepted only when the service accepts it now or
  accepted it less than the time to live ago: a revoked token is refused from then on.\<close>

theorem acceptance_is_recent:
  assumes "api_base_url cfg \<noteq> []" and "static_token cfg = []"
    and "fst (auth_validate net t0 t1 tok (run_auth es (new_auth_manager cfg)))"
  shows "api_validate net cfg tok = Allowed \<or>
    (\<exists>e \<in> set es. ev_token e = tok \<and> api_validate (ev_net e) cfg tok = Allowed
       \<and> t0 < ev_time e + 1000 * cache_ttl_seconds cfg)"
proof -
  let ?m = "run_auth es (new_auth_manager cfg)"
  have m: "auth_enabled ?m" "stat_token ?m = []" "api_client ?m = Some cfg"
    using assms(1,2) by (simp_all add: run_auth_frame new_auth_manager_def)
  from auth_validate_accept [OF assms(3) m(1,2)]
  consider x where "ac_entry (acache ?m) tok = Some (True, x)" "t0 < x"
    | "api_validate net cfg tok = Allowed"
    using m(3) by auto
  then show ?thesis
  proof cases
    case (1 x)
    with run_auth_entry [OF 1(1)] show ?thesis
      by (auto simp: new_auth_manager_def ac_entry_def assms(1))
  qed simp
qed

theorem acceptance_is_recent_witness:
  "api_validate offline api_cfg ''k'' = Allowed \<or>
    (\<exists>e \<in> set [\<lparr>ev_time = 0, ev_token = ''k'', ev_net = answering 200 True\<rparr>].
       ev_token e = ''k'' \<and> api_validate (ev_net e) api_cfg ''k'' = Allowed
       \<and> 1000 < ev_time e + 1000 * cache_ttl_seconds api_cfg)"
  by (rule acceptance_is_recent [of api_cfg offline 1000 1000])
    (simp_all add: auth_validate_def new_auth_manager_def ac_get_def ac_put_def Let_def api_cfg_answer,
     simp_all add: api_cfg_def)

text \<open>C31: An answer of the service is served for the time to live without asking again, and a refusal
  because the service is unavailable is not remembered: the next validation asks again.\<close>

theorem answers_cached_outages_not:
  assumes "auth_enabled m" and "stat_token m = []" and "api_client m = Some cfg"
    and "acache m tok = None" and "auth_validate net t0 t1 tok m = (b, m')"
  shows "if api_validate net cfg tok = ApiUnavailable
    then \<not> b \<and> fst (auth_validate net' t0' t1' tok m') = (api_validate net' cfg tok = Allowed)
    else b = (api_validate net cfg tok = Allowed)
      \<and> (t0' < t1 + 1000 * ttl_secs m \<longrightarrow> auth_validate net' t0' t1' tok m' = (b, m'))"
proof -
  have g: "ac_get t0 tok (acache m) = (None, acache m)" using assms(4) by (simp add: ac_get_def)
  show ?thesis
  proof (cases "api_validate net cfg tok = ApiUnavailable")
    case True
    then have "m' = m" "\<not> b" using assms g by (auto simp: auth_validate_def Let_def)
    moreover have "ac_entry (acache m) tok = None" using assms(4) by (simp add: ac_entry_def)
    ultimately show ?thesis using True auth_validate_miss [OF assms(1-3)] by simp
  next
    case False
    then have b: "b = (api_validate net cfg tok = Allowed)"
      and m': "m' = m\<lparr>acache := ac_put t1 tok b (ttl_secs m) (acache m)\<rparr>"
      using assms g by (auto simp: auth_validate_def Let_def)
    have "ac_entry (acache m') tok = Some (b, t1 + 1000 * ttl_secs m)" by (simp add: m' ac.put_entry)
    from auth_validate_hit [OF _ _ this] show ?thesis using False assms(1,2) b m' by simp
  qed
qed

theorem answers_cached_outages_not_witness:
  "auth_validate offline 299999 299999 ''k'' (snd (auth_validate (answering 200 True) 0 0 ''k'' (new_auth_manager api_cfg)))
    = (True, snd (auth_validate (answering 200 True) 0 0 ''k'' (new_auth_manager api_cfg)))
   \<and> fst (auth_validate (answering 200 True) 1 1 ''k'' (snd (auth_validate offline 0 0 ''k'' (new_auth_manager api_cfg))))"
proof -
  let ?m = "new_auth_manager api_cfg"
  have m: "auth_enabled ?m" "stat_token ?m = []" "api_client ?m = Some api_cfg" "acache ?m ''k'' = None"
    "ttl_secs ?m = 300"
    by (simp_all add: new_auth_manager_def) (simp_all add: api_cfg_def)
  note c = answers_cached_outages_not [OF m(1-4), of _ 0 0 "fst (auth_validate _ 0 0 ''k'' ?m)"
      "snd (auth_validate _ 0 0 ''k'' ?m)", OF prod.collapse [symmetric]]
  show ?thesis using c [of "answering 200 True" offline 299999 299999]
      c [of offline "answering 200 True" 1 1] by (simp add: api_cfg_answer m prod_eq_iff)
qed

text \<open>C32: The URL parser accepts exactly \<open>http\<close> and \<open>https\<close> URLs with a non-empty host, and
  the scheme, host and path it returns are the parts of the URL: they are non-overlapping and
  their concatenation is the URL again.\<close>

theorem parseUrl_roundtrip:
  "parseUrl url = Some (scheme, host, path) \<longleftrightarrow>
     url = scheme @ ''://'' @ host @ path \<and> scheme \<in> {''http'', ''https''}
     \<and> host \<noteq> [] \<and> CHR ''/'' \<notin> set host \<and> (path = [] \<or> hd path = CHR ''/'')
     \<and> list_all (\<lambda>c. \<not> line_break c) path"
  using parseUrl_sound [of url scheme host path] parseUrl_complete [of scheme host path] by auto

theorem parseUrl_roundtrip_witness:
  "parseUrl ''https://auth:8080/v1'' = Some (''https'', ''auth:8080'', ''/v1'')"
  by (simp add: parseUrl_roundtrip line_break_def)

end
