(* ===== verification/Hallucination.thy ===== *)
theory Hallucination
  imports Prelude
begin

text \<open>
  \<open>src/utils/HallucinationGuard.h\<close>: the filter that decides whether a transcription is a
  decoder loop. The loop over the words of the text, with its early returns, is modelled
  as written and shown equal to a declarative reference.
\<close>

section \<open>The model\<close>

text \<open>
  The loop variables are \<open>prev\<close>, \<open>consec\<close> and \<open>bigrams\<close>; a key that is not in the
  \<open>unordered_map\<close> counts 0. The words are those \<open>ss >> cur\<close> delivers.
\<close>

definition bigram_key :: "string \<Rightarrow> string \<Rightarrow> string" where
  "bigram_key prev cur = prev @ CHR '' '' # cur"

fun hallucination_loop :: "string \<Rightarrow> nat \<Rightarrow> (string \<Rightarrow> nat) \<Rightarrow> string list \<Rightarrow> bool" where
  "hallucination_loop prev consec bigrams [] = False"
| "hallucination_loop prev consec bigrams (cur # ws) =
     (if cur = prev \<and> 4 \<le> consec + 1 then True
      else let consec' = (if cur = prev then consec + 1 else 1);
               key = bigram_key prev cur
           in if prev \<noteq> [] then
                (if 4 \<le> bigrams key + 1 then True
                 else hallucination_loop cur consec' (bigrams(key := bigrams key + 1)) ws)
              else hallucination_loop cur consec' bigrams ws)"

definition isHallucination :: "string \<Rightarrow> bool" where
  "isHallucination text =
     (if 500 < length text then True else hallucination_loop [] 0 (\<lambda>_. 0) (words text))"

section \<open>The reference\<close>

text \<open>Four equal words in a row, and a pair of neighbouring words that occurs four times.\<close>

definition four_in_a_row :: "'a list \<Rightarrow> bool" where
  "four_in_a_row ws \<longleftrightarrow> (\<exists>us w vs. ws = us @ [w, w, w, w] @ vs)"

definition bigram_count :: "'a list \<Rightarrow> 'a \<Rightarrow> 'a \<Rightarrow> nat" where
  "bigram_count ws w v = count_list (zip ws (tl ws)) (w, v)"

definition repetitive :: "'a list \<Rightarrow> bool" where
  "repetitive ws \<longleftrightarrow> four_in_a_row ws \<or> (\<exists>w v. 4 \<le> bigram_count ws w v)"

text \<open>The length of the run of equal words at the end of a list.\<close>

definition run_length :: "'a list \<Rightarrow> nat" where
  "run_length ws = length (takeWhile (\<lambda>x. x = last ws) (rev ws))"

lemma zip_tl_snoc: "ps \<noteq> [] \<Longrightarrow> zip (ps @ [c]) (tl (ps @ [c])) = zip ps (tl ps) @ [(last ps, c)]"
proof (induction ps)
  case (Cons a ps)
  then show ?case by (cases ps) simp_all
qed simp

lemma bigram_count_snoc:
  "ps \<noteq> [] \<Longrightarrow> bigram_count (ps @ [c]) w v
     = bigram_count ps w v + (if w = last ps \<and> v = c then 1 else 0)"
  unfolding bigram_count_def zip_tl_snoc by simp

lemma run_length_snoc:
  "run_length (ps @ [c]) = (if ps \<noteq> [] \<and> c = last ps then Suc (run_length ps) else 1)"
proof (cases ps rule: rev_cases)
  case (snoc qs b)
  then show ?thesis by (auto simp: run_length_def)
qed (simp add: run_length_def)

lemma run_length_ge4: "4 \<le> run_length (ps @ [c]) \<longleftrightarrow> (\<exists>us. ps @ [c] = us @ [c, c, c, c])"
proof
  assume "4 \<le> run_length (ps @ [c])"
  then have l: "4 \<le> length (takeWhile (\<lambda>x. x = c) (rev (ps @ [c])))" by (simp add: run_length_def)
  obtain r where r: "rev (ps @ [c]) = takeWhile (\<lambda>x. x = c) (rev (ps @ [c])) @ r"
    by (metis takeWhile_dropWhile_id)
  have "takeWhile (\<lambda>x. x = c) (rev (ps @ [c])) = replicate (length (takeWhile (\<lambda>x. x = c) (rev (ps @ [c])))) c"
    by (rule replicate_eqI) (auto dest: set_takeWhileD)
  moreover obtain k where "length (takeWhile (\<lambda>x. x = c) (rev (ps @ [c]))) = 4 + k"
    using l le_Suc_ex by blast
  ultimately have "rev (ps @ [c]) = [c, c, c, c] @ replicate k c @ r"
    using r by (simp add: numeral_eq_Suc del: rev_append)
  then have "ps @ [c] = rev (replicate k c @ r) @ [c, c, c, c]"
    by (metis rev_append rev_rev_ident rev.simps append_assoc append.simps)
  then show "\<exists>us. ps @ [c] = us @ [c, c, c, c]" by blast
next
  assume "\<exists>us. ps @ [c] = us @ [c, c, c, c]"
  then obtain us where "ps = us @ [c, c, c]" by auto
  then show "4 \<le> run_length (ps @ [c])" by (simp add: run_length_def)
qed

lemma four_in_a_row_snoc:
  "four_in_a_row (ps @ [c]) \<longleftrightarrow> four_in_a_row ps \<or> 4 \<le> run_length (ps @ [c])"
proof -
  have "(\<exists>us w vs. ps @ [c] = us @ [w, w, w, w] @ vs) \<longleftrightarrow>
      (\<exists>us w vs. ps = us @ [w, w, w, w] @ vs) \<or> (\<exists>us. ps @ [c] = us @ [c, c, c, c])" (is "?L = ?R")
  proof
    assume ?L
    then obtain us w vs where e: "ps @ [c] = us @ [w, w, w, w] @ vs" by blast
    show ?R
    proof (cases vs rule: rev_cases)
      case Nil
      with e show ?thesis by auto
    next
      case (snoc vs' x)
      with e have "ps = us @ [w, w, w, w] @ vs'" by simp
      then show ?thesis by blast
    qed
  next
    assume ?R
    then show ?L by (metis append_Nil2 append_assoc)
  qed
  then show ?thesis unfolding four_in_a_row_def run_length_ge4 .
qed

lemma repetitive_snoc:
  assumes "ps \<noteq> []"
  shows "repetitive (ps @ [c]) \<longleftrightarrow>
    repetitive ps \<or> 4 \<le> run_length (ps @ [c]) \<or> 4 \<le> bigram_count ps (last ps) c + 1"
proof -
  have "(\<exists>w v. 4 \<le> bigram_count (ps @ [c]) w v) \<longleftrightarrow>
      (\<exists>w v. 4 \<le> bigram_count ps w v) \<or> 4 \<le> bigram_count ps (last ps) c + 1" (is "?L = ?R")
  proof
    assume ?L
    then obtain w v where "4 \<le> bigram_count (ps @ [c]) w v" by blast
    then show ?R using assms by (cases "w = last ps \<and> v = c") (auto simp: bigram_count_snoc)
  next
    have le: "bigram_count ps w v \<le> bigram_count (ps @ [c]) w v" for w v
      using assms by (simp add: bigram_count_snoc)
    assume ?R
    then show ?L
    proof
      assume "4 \<le> bigram_count ps (last ps) c + 1"
      then have "4 \<le> bigram_count (ps @ [c]) (last ps) c" using assms by (simp add: bigram_count_snoc)
      then show ?L by blast
    qed (use le le_trans in blast)
  qed
  then show ?thesis by (auto simp: repetitive_def four_in_a_row_snoc)
qed

lemma repetitive_append: "repetitive ps \<Longrightarrow> repetitive (ps @ qs)"
proof (induction qs rule: rev_induct)
  case (snoc q qs)
  then have "repetitive (ps @ qs)" by simp
  moreover have "ps @ qs \<noteq> []" using snoc.prems
    by (auto simp: repetitive_def four_in_a_row_def bigram_count_def)
  ultimately show ?case using repetitive_snoc [of "ps @ qs" q] by simp
qed simp

section \<open>The loop implements the reference\<close>

abbreviation nonspace :: "string \<Rightarrow> bool" where
  "nonspace w \<equiv> w \<noteq> [] \<and> (\<forall>c \<in> set w. \<not> isspace c)"

lemma bigram_key_inj:
  assumes "nonspace w" and "nonspace w'" and "bigram_key w v = bigram_key w' v'"
  shows "w = w' \<and> v = v'"
proof -
  have sp: "isspace CHR '' ''" by (simp add: isspace_def)
  have t: "takeWhile (\<lambda>c. \<not> isspace c) (u @ CHR '' '' # x) = u" if "nonspace u" for u x
    using that sp by (simp add: takeWhile_append2)
  have "w = w'" using t [OF assms(1), of v] t [OF assms(2), of v'] assms(3)
    by (simp add: bigram_key_def)
  with assms(3) show ?thesis by (simp add: bigram_key_def)
qed

text \<open>The counters of the loop after the words \<open>ps\<close>.\<close>

definition counts_bigrams :: "(string \<Rightarrow> nat) \<Rightarrow> string list \<Rightarrow> bool" where
  "counts_bigrams bg ps \<longleftrightarrow>
     (\<forall>w v. nonspace w \<longrightarrow> nonspace v \<longrightarrow> bg (bigram_key w v) = bigram_count ps w v)"

lemma hallucination_loop_eq:
  assumes "ps \<noteq> []" and "\<forall>w \<in> set (ps @ ws). nonspace w" and "\<not> repetitive ps"
    and "counts_bigrams bg ps"
  shows "hallucination_loop (last ps) (run_length ps) bg ws = repetitive (ps @ ws)"
  using assms
proof (induction ws arbitrary: ps bg)
  case Nil
  then show ?case by simp
next
  case (Cons cur ws)
  let ?key = "bigram_key (last ps) cur"
  have nb: "nonspace (last ps)" "nonspace cur" using Cons.prems(1,2) by auto
  have cnt: "bg ?key = bigram_count ps (last ps) cur"
    using Cons.prems(4) nb by (simp add: counts_bigrams_def)
  have run: "run_length (ps @ [cur]) = (if cur = last ps then run_length ps + 1 else 1)"
    using Cons.prems(1) by (simp add: run_length_snoc)
  have rep: "repetitive (ps @ [cur]) \<longleftrightarrow> 4 \<le> run_length (ps @ [cur]) \<or> 4 \<le> bg ?key + 1"
    using repetitive_snoc [OF Cons.prems(1)] Cons.prems(3) cnt by simp
  show ?case
  proof (cases "repetitive (ps @ [cur])")
    case True
    then have "repetitive (ps @ cur # ws)" using repetitive_append [of "ps @ [cur]" ws] by simp
    moreover have "hallucination_loop (last ps) (run_length ps) bg (cur # ws)"
      using True nb by (auto simp: rep run split: if_splits)
    ultimately show ?thesis by simp
  next
    case False
    have "counts_bigrams (bg(?key := bg ?key + 1)) (ps @ [cur])"
      unfolding counts_bigrams_def
    proof (intro allI impI)
      fix w v assume wv: "nonspace w" "nonspace v"
      show "(bg(?key := bg ?key + 1)) (bigram_key w v) = bigram_count (ps @ [cur]) w v"
        using bigram_key_inj [OF wv(1) nb(1), of v cur] Cons.prems(1,4) wv
        by (auto simp: counts_bigrams_def bigram_count_snoc)
    qed
    then have "hallucination_loop (last (ps @ [cur])) (run_length (ps @ [cur]))
        (bg(?key := bg ?key + 1)) ws = repetitive ((ps @ [cur]) @ ws)"
      by (rule Cons.IH [rotated 3]) (use Cons.prems(2) False in auto)
    moreover have "hallucination_loop (last ps) (run_length ps) bg (cur # ws) =
        hallucination_loop cur (run_length (ps @ [cur])) (bg(?key := bg ?key + 1)) ws"
      using False nb by (auto simp: rep run Let_def)
    ultimately show ?thesis by simp
  qed
qed

lemma hallucination_words:
  "hallucination_loop [] 0 (\<lambda>_. 0) (words s) = repetitive (words s)"
proof (cases "words s")
  case Nil
  then show ?thesis by (simp add: repetitive_def four_in_a_row_def bigram_count_def)
next
  case (Cons w ws)
  have ne: "\<forall>x \<in> set (w # ws). nonspace x" using words_nonempty_nonspace [of _ s] Cons by auto
  have "\<not> repetitive [w]"
    by (auto simp: repetitive_def four_in_a_row_def bigram_count_def Cons_eq_append_conv)
  moreover have "counts_bigrams (\<lambda>_. 0) [w]" by (simp add: counts_bigrams_def bigram_count_def)
  ultimately have "hallucination_loop (last [w]) (run_length [w]) (\<lambda>_. 0) ws = repetitive ([w] @ ws)"
    using ne by (intro hallucination_loop_eq) auto
  then show ?thesis using ne by (simp add: Cons run_length_def)
qed

section \<open>Properties\<close>

text \<open>C22: A text is rejected exactly when it is longer than 500 bytes, holds four equal words in a
  row, or holds one pair of neighbouring words at least four times: the loop with its
  counters and early returns decides this reference.\<close>

theorem isHallucination_reference:
  "isHallucination text \<longleftrightarrow> 500 < length text \<or> four_in_a_row (words text)
     \<or> (\<exists>w v. 4 \<le> bigram_count (words text) w v)"
  by (simp add: isHallucination_def hallucination_words repetitive_def)

end
