(* ===== verification/Session.thy ===== *)
theory Session
  imports Engine Model_Cache Auth Hallucination
begin

text \<open>
  \<open>src/server/StreamingSession.h\<close>, the part that runs in the receive loop: the handlers of
  the frames of one WebSocket session. A handler takes the state all sessions share
  (authentication manager, model cache, inference limiter) and the session, and returns
  both with the exception that leaves the handler, if one does. The libraries are the
  parameters of \<open>deps\<close>.
\<close>

section \<open>State\<close>

record deps =
  net :: network
  parse_json :: "string \<Rightarrow> string option + json" \<comment> \<open>\<open>Inl\<close>: the text of the \<open>parse_error\<close>, \<open>None\<close> for \<open>out_of_range\<close>\<close>
  can_dump :: "json \<Rightarrow> bool"              \<comment> \<open>\<open>dump()\<close> throws on text that is not UTF-8\<close>
  lib_what :: "exn \<Rightarrow> string"
  load_model :: "string \<Rightarrow> bool"
  init_state :: "nat \<Rightarrow> bool"
  whisper :: whisper
  audio_fault :: audio_fault \<comment> \<open>where memory runs out for incoming audio\<close>
  cancel_blocking :: bool \<comment> \<open>whether cancelling a socket ends its blocking operations\<close>

record world =
  w_auth :: auth_manager
  w_cache :: model_cache
  w_inf :: inference_limiter

datatype close_code = Policy_Error | Normal_Closure

record session_config =
  cfg_model_path :: string
  cfg_beam_size :: int
  cfg_threads :: int
  cfg_prompt :: string
  cfg_timeout_sec :: int
  cfg_temperature :: float32
  cfg_temperature_inc :: float32
  cfg_no_speech_thold :: float32
  cfg_logprob_thold :: float32

text \<open>
  The connection is \<open>ws_open\<close> until this side closes it and \<open>ws_link\<close> as long as the
  transport works; \<open>ws_sent\<close> are the messages written so far.
\<close>

record session =
  ws_open :: bool
  ws_link :: bool
  ws_sent :: "json list"
  ws_close :: "close_code option"
  s_config :: session_config
  s_engine :: "engine option"
  session_id :: string
  configured :: bool
  buffer_overflowed :: bool
  last_transcribed_size :: "64 word"
  s_language :: string
  model_acquired :: bool
  bytes_in_window :: nat
  rate_limit_start :: int
  flush_running :: bool
  last_audio_time :: int
  full_transcription :: string
  raw_transcription :: string

text \<open>
  \<open>generateSessionId\<close>: the milliseconds since the epoch and a random number from 1000 to 9999,
  both given here.
\<close>

definition generateSessionId :: "nat \<Rightarrow> nat \<Rightarrow> string" where
  "generateSessionId epoch_ms dis = ''session-'' @ to_string_nat epoch_ms @ ''-'' @ to_string_nat dis"

definition new_session :: "session_config \<Rightarrow> string \<Rightarrow> int \<Rightarrow> session" where
  "new_session cfg sid now =
     \<lparr>ws_open = True, ws_link = True, ws_sent = [], ws_close = None, s_config = cfg,
      s_engine = None, session_id = sid, configured = False, buffer_overflowed = False,
      last_transcribed_size = 0, s_language = ''es'', model_acquired = False,
      bytes_in_window = 0, rate_limit_start = now, flush_running = False,
      last_audio_time = now, full_transcription = [], raw_transcription = []\<rparr>"

definition what :: "deps \<Rightarrow> exn \<Rightarrow> string" where
  "what d e = (case e of Runtime_Error m \<Rightarrow> m | _ \<Rightarrow> lib_what d e)"

definition quoted :: "string \<Rightarrow> string" where
  "quoted s = [CHR 0x27] @ s @ [CHR 0x27]"

section \<open>Sending and closing\<close>

text \<open>A message that cannot be written is logged and dropped: every exception is caught.\<close>

definition sendMessage :: "deps \<Rightarrow> json \<Rightarrow> session \<Rightarrow> session" where
  "sendMessage d msg s =
     (if can_dump d msg \<and> ws_open s \<and> ws_link s then s\<lparr>ws_sent := ws_sent s @ [msg]\<rparr> else s)"

definition error_msg :: "string \<Rightarrow> string \<Rightarrow> json" where
  "error_msg message code =
     JObj [(''type'', JStr ''error''), (''message'', JStr message), (''code'', JStr code)]"

definition sendError :: "deps \<Rightarrow> string \<Rightarrow> string \<Rightarrow> session \<Rightarrow> session" where
  "sendError d message code s = sendMessage d (error_msg message code) s"

definition ready_msg :: "session \<Rightarrow> json" where
  "ready_msg s = JObj
     [(''type'', JStr ''ready''), (''protocol_version'', JInt 1), (''session_id'', JStr (session_id s)),
      (''config'', JObj [(''language'', JStr (s_language s)), (''sample_rate'', JInt 16000),
                       (''beam_size'', JInt (cfg_beam_size (s_config s)))])]"

definition sendReady :: "deps \<Rightarrow> session \<Rightarrow> session" where
  "sendReady d s = sendMessage d (ready_msg s) s"

definition warning_msg :: json where
  "warning_msg = JObj [(''type'', JStr ''warning''), (''code'', JStr ''buffer_full''),
     (''message'', JStr ''Audio buffer full, dropping incoming audio'')]"

definition transcription_msg :: "string \<Rightarrow> bool \<Rightarrow> json" where
  "transcription_msg text is_final =
     JObj [(''type'', JStr ''transcription''), (''text'', JStr text), (''is_final'', JBool is_final)]"

text \<open>
  \<open>ws_.close(code)\<close> throws when the closing handshake cannot be made; the form with an
  error code does not throw.
\<close>

definition close_ws :: "close_code \<Rightarrow> session \<Rightarrow> exn option \<times> session" where
  "close_ws code s =
     (if ws_open s \<and> ws_link s then (None, s\<lparr>ws_open := False, ws_close := Some code\<rparr>)
      else (Some System_Error, s))"

definition close_ws_ec :: "close_code \<Rightarrow> session \<Rightarrow> session" where
  "close_ws_ec code s = snd (close_ws code s)"

section \<open>Audio\<close>

text \<open>
  \<open>StreamingSession::processAudioChunk\<close>: the part under \<open>state_mutex_\<close>, which says whether to
  warn, and the warning, which is sent after the mutex is unlocked. An exception leaves both.
\<close>

definition store_audio :: "deps \<Rightarrow> int \<Rightarrow> float32 list \<Rightarrow> session \<Rightarrow> bool result \<times> session" where
  "store_audio d now audio s =
     (case s_engine s of
        None \<Rightarrow> (Inr False, s)
      | Some e \<Rightarrow>
          if \<not> configured s then (Inr False, s)
          else let (r, e') = push_chunk (audio_fault d) audio e;
                   s1 = s\<lparr>last_audio_time := now, s_engine := Some e'\<rparr>
               in case r of
                    Inl x \<Rightarrow> (Inl x, s1)
                  | Inr overflow \<Rightarrow> (Inr (overflow \<and> \<not> buffer_overflowed s), s1\<lparr>buffer_overflowed := overflow\<rparr>))"

definition sessionAudio :: "deps \<Rightarrow> int \<Rightarrow> float32 list \<Rightarrow> session \<Rightarrow> exn option \<times> session" where
  "sessionAudio d now audio s =
     (case store_audio d now audio s of
        (Inl x, s1) \<Rightarrow> (Some x, s1)
      | (Inr should_warn, s1) \<Rightarrow> (None, if should_warn then sendMessage d warning_msg s1 else s1))"

text \<open>The floats in a block of bytes (\<open>reinterpret_cast<const float*>\<close>).\<close>

fun floats_of_bytes :: "8 word list \<Rightarrow> float32 list" where
  "floats_of_bytes (b0 # b1 # b2 # b3 # bs) = f_of_bytes b0 b1 b2 b3 # floats_of_bytes bs"
| "floats_of_bytes _ = []"

abbreviation MAX_FRAME_BYTES :: nat where "MAX_FRAME_BYTES \<equiv> 1 * 1024 * 1024"
abbreviation MAX_BYTES_PER_WINDOW :: nat where "MAX_BYTES_PER_WINDOW \<equiv> 200 * 1024 * 3"

definition not_configured :: "deps \<Rightarrow> session \<Rightarrow> session" where
  "not_configured d s = sendError d (''Session not configured. Send '' @ quoted ''config'' @ '' first.'') ''NOT_CONFIGURED'' s"

text \<open>
  The guards and the rate limit, which need no mutex: the samples to store, if the frame is
  taken. The counter is a \<open>size_t\<close> (64 bits). The elapsed time is in whole seconds, rounded
  towards zero; the steady clock does not run backwards.
\<close>

definition binary_guard :: "deps \<Rightarrow> int \<Rightarrow> 8 word list \<Rightarrow> session \<Rightarrow> float32 list option \<times> session" where
  "binary_guard d now data s =
     (if MAX_FRAME_BYTES < length data then (None, close_ws_ec Policy_Error s)
      else if length data < 4 then (None, s)
      else if \<not> configured s then (None, not_configured d s)
      else if length data mod 4 \<noteq> 0 then (None, s)
      else let elapsed_s = (now - rate_limit_start s) div 1000;
               s1 = s\<lparr>bytes_in_window := (bytes_in_window s + length data) mod 2 ^ 64\<rparr>
           in if 3 \<le> elapsed_s then
                (if MAX_BYTES_PER_WINDOW < bytes_in_window s1 then (None, close_ws_ec Policy_Error s1)
                 else (Some (floats_of_bytes data), s1\<lparr>rate_limit_start := now, bytes_in_window := 0\<rparr>))
              else (Some (floats_of_bytes data), s1))"

text \<open>The block with the handler for exceptions, from the making of the samples on.\<close>

definition audio_failed :: "deps \<Rightarrow> exn \<Rightarrow> session \<Rightarrow> session" where
  "audio_failed d x s = sendError d (''Binary audio processing failed: '' @ what d x) ''AUDIO_ERROR'' s"

definition take_audio :: "deps \<Rightarrow> int \<Rightarrow> float32 list \<Rightarrow> session \<Rightarrow> session" where
  "take_audio d now pcm s =
     (case (if audio_fault d = Frame_Fault then (Some Bad_Alloc, s) else sessionAudio d now pcm s) of
        (None, s1) \<Rightarrow> s1
      | (Some x, s1) \<Rightarrow> audio_failed d x s1)"

definition handleBinaryMessage :: "deps \<Rightarrow> int \<Rightarrow> 8 word list \<Rightarrow> session \<Rightarrow> session" where
  "handleBinaryMessage d now data s =
     (case binary_guard d now data s of
        (None, s1) \<Rightarrow> s1
      | (Some pcm, s1) \<Rightarrow> take_audio d now pcm s1)"

section \<open>Configuration\<close>

definition setup_engine :: "session_config \<Rightarrow> string \<Rightarrow> float32 \<Rightarrow> engine \<Rightarrow> engine" where
  "setup_engine cfg lang vad e =
     (let e1 = setLogprobThreshold (cfg_logprob_thold cfg)
           (setNoSpeechThreshold (cfg_no_speech_thold cfg)
             (setTemperatureInc (cfg_temperature_inc cfg)
               (setTemperature (cfg_temperature cfg)
                 (setVadThreshold vad
                   (setBeamSize (cfg_beam_size cfg)
                     (setThreads (cfg_threads cfg) (setLanguage lang e)))))))
      in if cfg_prompt cfg \<noteq> [] then setInitialPrompt (cfg_prompt cfg) e1 else e1)"

text \<open>
  The authentication of a config message: \<open>None\<close> when the session may go on, otherwise what
  the handler does before it returns. The clock is read at \<open>t0\<close> and, after the call of the
  validation service, at \<open>t1\<close>.
\<close>

definition auth_check :: "deps \<Rightarrow> int \<Rightarrow> int \<Rightarrow> json \<Rightarrow> world \<Rightarrow> (string \<times> string) option \<times> world" where
  "auth_check d t0 t1 msg w =
     (if \<not> isAuthEnabled (w_auth w) then (None, w)
      else if \<not> contains msg ''token'' \<or> \<not> is_string (field msg ''token'')
      then (Some (''Missing or invalid '' @ quoted ''token'', ''AUTH_REQUIRED''), w)
      else (case get_string (field msg ''token'') of
              Inl _ \<Rightarrow> (Some (''Missing or invalid '' @ quoted ''token'', ''AUTH_REQUIRED''), w)
            | Inr token \<Rightarrow>
                let (ok, a) = auth_validate (net d) t0 t1 token (w_auth w); w1 = w\<lparr>w_auth := a\<rparr>
                in if ok then (None, w1) else (Some (''Invalid token'', ''AUTH_FAILED''), w1)))"

definition get_vad :: "json \<Rightarrow> float32 result" where
  "get_vad msg = (if contains msg ''vad_thold'' \<and> is_number (field msg ''vad_thold'')
     then get_float (field msg ''vad_thold'') else Inr (FNum 0))"

text \<open>
  What comes before the model is acquired: \<open>Inr\<close> the VAD threshold when the handler goes on,
  \<open>Inl\<close> how it ends otherwise.
\<close>

definition prepare_config :: "deps \<Rightarrow> int \<Rightarrow> int \<Rightarrow> json \<Rightarrow> world \<Rightarrow> session
    \<Rightarrow> (exn option + float32) \<times> world \<times> session" where
  "prepare_config d t0 t1 msg w s =
     (case auth_check d t0 t1 msg w of
        (Some (message, code), w1) \<Rightarrow>
          (let (x, s1) = close_ws Policy_Error (sendError d message code s) in (Inl x, w1, s1))
      | (None, w1) \<Rightarrow>
          (case (if contains msg ''language'' then get_string (field msg ''language'') else Inr (s_language s)) of
             Inl x \<Rightarrow> (Inl (Some x), w1, s)
           | Inr lang \<Rightarrow>
               let s1 = s\<lparr>s_language := lang\<rparr>
               in case get_vad msg of
                    Inl x \<Rightarrow> (Inl (Some x), w1, s1)
                  | Inr vad \<Rightarrow> (Inr vad, w1, s1)))"

text \<open>The block under \<open>state_mutex_\<close> that makes the engine and marks the session configured.\<close>

definition install_engine :: "deps \<Rightarrow> int \<Rightarrow> float32 \<Rightarrow> nat \<Rightarrow> session \<Rightarrow> exn option \<times> session" where
  "install_engine d now vad cx s =
     (let s1 = s\<lparr>model_acquired := True\<rparr>
      in case new_engine (init_state d) (Some cx) of
           Inl x \<Rightarrow> (Some x, s1)
         | Inr e \<Rightarrow>
             (None, s1\<lparr>s_engine := Some (setup_engine (s_config s1) (s_language s1) vad e),
                configured := True, last_transcribed_size := 0,
                full_transcription := [], raw_transcription := [], last_audio_time := now\<rparr>))"

definition acquire_engine :: "deps \<Rightarrow> int \<Rightarrow> float32 \<Rightarrow> world \<Rightarrow> session \<Rightarrow> exn option \<times> world \<times> session" where
  "acquire_engine d now vad w s =
     (let (r, c) = cache_acquire (load_model d) (cfg_model_path (s_config s)) (w_cache w);
          w1 = w\<lparr>w_cache := c\<rparr>
      in case r of
           Inl x \<Rightarrow> (Some x, w1, s)
         | Inr cx \<Rightarrow>
             (case install_engine d now vad cx s of
                (Some x, s1) \<Rightarrow> (Some x, w1, s1)
              | (None, s1) \<Rightarrow> (None, w1, sendReady d s1)))"

definition config_body :: "deps \<Rightarrow> int \<Rightarrow> int \<Rightarrow> json \<Rightarrow> world \<Rightarrow> session \<Rightarrow> exn option \<times> world \<times> session" where
  "config_body d t0 t1 msg w s =
     (case prepare_config d t0 t1 msg w s of
        (Inl x, w1, s1) \<Rightarrow> (x, w1, s1)
      | (Inr vad, w1, s1) \<Rightarrow> acquire_engine d t1 vad w1 s1)"

text \<open>Exceptions of the whole block are caught and reported.\<close>

definition config_failed :: "deps \<Rightarrow> exn \<Rightarrow> session \<Rightarrow> session" where
  "config_failed d x s = sendError d (''Configuration failed: '' @ what d x) ''CONFIG_ERROR'' s"

definition handleConfig :: "deps \<Rightarrow> int \<Rightarrow> int \<Rightarrow> json \<Rightarrow> world \<Rightarrow> session \<Rightarrow> world \<times> session" where
  "handleConfig d t0 t1 msg w s =
     (case config_body d t0 t1 msg w s of
        (None, w1, s1) \<Rightarrow> (w1, s1)
      | (Some x, w1, s1) \<Rightarrow> (w1, config_failed d x s1))"

section \<open>End of stream\<close>

text \<open>The final text: the unfiltered text stands in when everything was filtered away.\<close>

definition raw_fallback :: "session \<Rightarrow> session" where
  "raw_fallback s =
     (if full_transcription s = [] \<and> raw_transcription s \<noteq> []
      then s\<lparr>full_transcription := raw_transcription s\<rparr> else s)"

text \<open>
  The part under \<open>state_mutex_\<close>: the rest is decoded and the final text put together; an
  exception of the decoder leaves the handler. Then the message is sent and the connection
  closed, without the mutex.
\<close>

definition end_collect :: "deps \<Rightarrow> session \<Rightarrow> exn option \<times> session" where
  "end_collect d s = (case s_engine s of
       None \<Rightarrow> (None, raw_fallback s)
     | Some e \<Rightarrow>
         (case transcribeSlidingWindow (whisper d) True e of
            (Inl x, e') \<Rightarrow> (Some x, s\<lparr>s_engine := Some e'\<rparr>)
          | (Inr res, e') \<Rightarrow>
              (None, raw_fallback (s\<lparr>s_engine := Some e',
                 full_transcription := full_transcription s @ committed_text res\<rparr>))))"

definition end_send :: "deps \<Rightarrow> session \<Rightarrow> session" where
  "end_send d s = sendMessage d (transcription_msg (full_transcription s) True) s"

definition handleEnd :: "deps \<Rightarrow> session \<Rightarrow> exn option \<times> session" where
  "handleEnd d s = (case end_collect d s of
       (Some x, s1) \<Rightarrow> (Some x, s1)
     | (None, s1) \<Rightarrow> (None, snd (close_ws Normal_Closure (end_send d s1))))"

section \<open>Text frames\<close>

text \<open>Only a \<open>parse_error\<close> is caught here; any other exception leaves the receive loop.\<close>

definition handleJsonMessage ::
    "deps \<Rightarrow> int \<Rightarrow> int \<Rightarrow> string \<Rightarrow> world \<Rightarrow> session \<Rightarrow> exn option \<times> world \<times> session" where
  "handleJsonMessage d t0 t1 message w s =
     (case parse_json d message of
        Inl (Some err) \<Rightarrow> (None, w, sendError d (''Invalid JSON: '' @ err) ''PARSE_ERROR'' s)
      | Inl None \<Rightarrow> (Some Out_Of_Range, w, s)
      | Inr msg \<Rightarrow>
          if \<not> contains msg ''type'' then (None, w, sendError d (''Missing '' @ quoted ''type'' @ '' field'') ''INVALID_MESSAGE'' s)
          else (case get_string (field msg ''type'') of
                  Inl x \<Rightarrow> (Some x, w, s)
                | Inr type \<Rightarrow>
                    if type = ''config'' then (None, handleConfig d t0 t1 msg w s)
                    else if \<not> configured s then (None, w, not_configured d s)
                    else if type = ''end'' then (let (x, s1) = handleEnd d s in (x, w, s1))
                    else (None, w, sendError d (''Unknown message type: '' @ type) ''UNKNOWN_TYPE'' s)))"

section \<open>What the receive loop logs about a message\<close>

text \<open>
  The calls of \<open>handleJsonMessage\<close> itself, before the handlers it calls; their text contains the
  type as the client sent it.
\<close>

definition json_log :: "deps \<Rightarrow> string \<Rightarrow> session \<Rightarrow> (level \<times> string) list" where
  "json_log d message s =
     (case parse_json d message of
        Inl (Some err) \<Rightarrow> [(WARN, ''JSON parse error: '' @ err)]
      | Inl None \<Rightarrow> []
      | Inr msg \<Rightarrow>
          if \<not> contains msg ''type'' then [(WARN, ''Received JSON without '' @ quoted ''type'' @ '' field'')]
          else (case get_string (field msg ''type'') of
                  Inl x \<Rightarrow> []
                | Inr type \<Rightarrow>
                    (DEBUG, ''JSON message received: type='' @ type) #
                    (if type = ''config'' then []
                     else if \<not> configured s then [(WARN, ''Message type='' @ quoted type @ '' received before config'')]
                     else if type = ''end'' then []
                     else [(WARN, ''Unknown message type: '' @ type)])))"

text \<open>The bytes of the log for a list of calls of a session, all at the same time.\<close>

definition log_bytes :: "bool \<Rightarrow> string \<Rightarrow> string \<Rightarrow> (level \<times> string) list \<Rightarrow> string" where
  "log_bytes no_debug ts sid calls =
     concat (map (\<lambda>(l, m). case log_call no_debug l ts m sid of None \<Rightarrow> [] | Some (out, line) \<Rightarrow> line) calls)"

section \<open>The receive loop\<close>

datatype frame = Text string | Binary "8 word list"

definition releaseModel :: "int \<Rightarrow> world \<Rightarrow> session \<Rightarrow> world \<times> session" where
  "releaseModel now w s =
     (if model_acquired s
      then (w\<lparr>w_cache := cache_release now (w_cache w)\<rparr>, s\<lparr>s_engine := None, model_acquired := False\<rparr>)
      else (w, s))"

definition handle_frame ::
    "deps \<Rightarrow> int \<Rightarrow> int \<Rightarrow> frame \<Rightarrow> world \<Rightarrow> session \<Rightarrow> exn option \<times> world \<times> session" where
  "handle_frame d t0 t1 f w s = (case f of
       Text m \<Rightarrow> handleJsonMessage d t0 t1 m w s
     | Binary data \<Rightarrow> (None, w, handleBinaryMessage d t0 data s))"

text \<open>
  \<open>run\<close> without the flush thread: frames with their times, until the list ends (the read
  fails: closed, idle timeout, lost link), the connection is closed, or an exception
  leaves a handler. In each case the model is released.
\<close>

fun run_loop :: "deps \<Rightarrow> (int \<times> int \<times> frame) list \<Rightarrow> world \<Rightarrow> session \<Rightarrow> exn option \<times> world \<times> session" where
  "run_loop d [] w s = (Some System_Error, w, s)"
| "run_loop d ((t0, t1, f) # fs) w s =
     (if \<not> (ws_open s \<and> ws_link s) then (Some System_Error, w, s)
      else case handle_frame d t0 t1 f w s of
             (Some x, w1, s1) \<Rightarrow> (Some x, w1, s1)
           | (None, w1, s1) \<Rightarrow> run_loop d fs w1 s1)"

definition run_session :: "deps \<Rightarrow> int \<Rightarrow> (int \<times> int \<times> frame) list \<Rightarrow> world \<Rightarrow> session \<Rightarrow> world \<times> session" where
  "run_session d t_end fs w s =
     (case run_loop d fs w (s\<lparr>flush_running := True\<rparr>) of (x, w1, s1) \<Rightarrow> releaseModel t_end w1 s1)"

text \<open>The destructor stops the flush thread and releases the model if that was not done.\<close>

definition destroy_session :: "int \<Rightarrow> world \<Rightarrow> session \<Rightarrow> world \<times> session" where
  "destroy_session now w s = releaseModel now w (s\<lparr>flush_running := False\<rparr>)"

end
