(* ===== verification/Session_Safety.thy ===== *)
theory Session_Safety
  imports Session
begin

text \<open>
  What holds of the receive loop of \<open>Session\<close>: the invariant of a session with the model cache,
  the reference it takes and gives back, the gate of authentication and configuration, the
  limits on incoming audio, and what the client is sent.
\<close>

section \<open>Frame conditions\<close>

lemma sendMessage_frame [simp]:
  "s_engine (sendMessage d m s) = s_engine s" "configured (sendMessage d m s) = configured s"
  "model_acquired (sendMessage d m s) = model_acquired s" "s_config (sendMessage d m s) = s_config s"
  "ws_open (sendMessage d m s) = ws_open s" "ws_link (sendMessage d m s) = ws_link s"
  "bytes_in_window (sendMessage d m s) = bytes_in_window s"
  "rate_limit_start (sendMessage d m s) = rate_limit_start s"
  "buffer_overflowed (sendMessage d m s) = buffer_overflowed s"
  "full_transcription (sendMessage d m s) = full_transcription s"
  "raw_transcription (sendMessage d m s) = raw_transcription s"
  by (simp_all add: sendMessage_def)

lemma sendError_frame [simp]:
  "s_engine (sendError d m c s) = s_engine s" "configured (sendError d m c s) = configured s"
  "model_acquired (sendError d m c s) = model_acquired s" "s_config (sendError d m c s) = s_config s"
  by (simp_all add: sendError_def)

lemma sendReady_frame [simp]:
  "s_engine (sendReady d s) = s_engine s" "configured (sendReady d s) = configured s"
  "model_acquired (sendReady d s) = model_acquired s" "s_config (sendReady d s) = s_config s"
  by (simp_all add: sendReady_def)

lemma close_ws_frame [simp]:
  "s_engine (snd (close_ws c s)) = s_engine s" "configured (snd (close_ws c s)) = configured s"
  "model_acquired (snd (close_ws c s)) = model_acquired s" "s_config (snd (close_ws c s)) = s_config s"
  by (simp_all add: close_ws_def)

lemma close_ws_ec_frame [simp]:
  "s_engine (close_ws_ec c s) = s_engine s" "configured (close_ws_ec c s) = configured s"
  "model_acquired (close_ws_ec c s) = model_acquired s" "s_config (close_ws_ec c s) = s_config s"
  by (simp_all add: close_ws_ec_def)

lemma not_configured_frame [simp]:
  "s_engine (not_configured d s) = s_engine s" "configured (not_configured d s) = configured s"
  "model_acquired (not_configured d s) = model_acquired s" "s_config (not_configured d s) = s_config s"
  by (simp_all add: not_configured_def)

lemma raw_fallback_frame [simp]:
  "s_engine (raw_fallback s) = s_engine s" "configured (raw_fallback s) = configured s"
  "model_acquired (raw_fallback s) = model_acquired s" "s_config (raw_fallback s) = s_config s"
  "ws_open (raw_fallback s) = ws_open s" "ws_link (raw_fallback s) = ws_link s"
  "ws_sent (raw_fallback s) = ws_sent s"
  by (simp_all add: raw_fallback_def)

lemma eng_ctx_push [simp]: "eng_ctx (snd (processAudioChunk pcm e)) = eng_ctx e"
  by (simp add: processAudioChunk_def Let_def split: prod.split)

lemma eng_ctx_infer [simp]: "eng_ctx (snd (transcribeSlidingWindow wh f e)) = eng_ctx e"
  by (simp add: transcribeSlidingWindow_def lock_language_def Let_def split: prod.split option.split)

lemma setup_engine_ok: "engine_ok e \<Longrightarrow> engine_ok (setup_engine cfg l v e)"
  by (auto simp: setup_engine_def setter_defs engine_ok_def Let_def)

lemma eng_ctx_setup [simp]: "eng_ctx (setup_engine cfg l v e) = eng_ctx e"
  by (simp add: setup_engine_def setter_defs Let_def)

lemma eng_ctx_new: "new_engine ok c = Inr e \<Longrightarrow> c = Some (eng_ctx e)"
  by (auto simp: new_engine_def split: option.splits if_splits)

lemma eng_ctx_push_chunk [simp]: "eng_ctx (snd (push_chunk f pcm e)) = eng_ctx e"
  by (simp add: push_chunk_def append_fails_frame split: prod.split) (metis eng_ctx_push snd_conv)

text \<open>Audio changes the engine by one push, and neither configuration nor reference.\<close>

lemma store_audio_frame:
  assumes "store_audio d now pcm s = (b, s')"
  shows "configured s' = configured s" "model_acquired s' = model_acquired s" "s_config s' = s_config s"
    "s_engine s' = (if configured s then map_option (\<lambda>e. snd (push_chunk (audio_fault d) pcm e)) (s_engine s) else s_engine s)"
    "ws_sent s' = ws_sent s" "ws_open s' = ws_open s" "ws_link s' = ws_link s"
    "full_transcription s' = full_transcription s" "raw_transcription s' = raw_transcription s"
    "bytes_in_window s' = bytes_in_window s" "rate_limit_start s' = rate_limit_start s"
    "session_id s' = session_id s" "s_language s' = s_language s" "b \<noteq> Inr False \<Longrightarrow> configured s"
  using assms by (auto simp: store_audio_def Let_def split: option.splits prod.splits if_splits sum.splits)

lemma audio_failed_frame [simp]:
  "s_engine (audio_failed d x s) = s_engine s" "configured (audio_failed d x s) = configured s"
  "model_acquired (audio_failed d x s) = model_acquired s" "s_config (audio_failed d x s) = s_config s"
  "bytes_in_window (audio_failed d x s) = bytes_in_window s" "rate_limit_start (audio_failed d x s) = rate_limit_start s"
  "ws_open (audio_failed d x s) = ws_open s" "ws_link (audio_failed d x s) = ws_link s"
  by (simp_all add: audio_failed_def sendError_def)

lemma take_audio_frame [simp]:
  "configured (take_audio d now a s) = configured s" "model_acquired (take_audio d now a s) = model_acquired s"
  "s_config (take_audio d now a s) = s_config s" "bytes_in_window (take_audio d now a s) = bytes_in_window s"
  "rate_limit_start (take_audio d now a s) = rate_limit_start s"
  "ws_open (take_audio d now a s) = ws_open s" "ws_link (take_audio d now a s) = ws_link s"
  "s_engine (take_audio d now a s) \<in> {s_engine s, map_option (\<lambda>e. snd (push_chunk (audio_fault d) a e)) (s_engine s)}"
  using store_audio_frame [of d now a s "fst (store_audio d now a s)" "snd (store_audio d now a s)"]
  by (auto simp: take_audio_def sessionAudio_def split: prod.split sum.split)

lemma handleBinary_frame [simp]:
  "configured (handleBinaryMessage d now data s) = configured s"
  "model_acquired (handleBinaryMessage d now data s) = model_acquired s"
  "s_config (handleBinaryMessage d now data s) = s_config s"
  by (simp_all add: handleBinaryMessage_def binary_guard_def Let_def)

lemma handleBinary_engine:
  "s_engine (handleBinaryMessage d now data s) \<in>
     {s_engine s, map_option (\<lambda>e. snd (push_chunk (audio_fault d) (floats_of_bytes data) e)) (s_engine s)}"
proof -
  obtain r t where g: "binary_guard d now data s = (r, t)" by fastforce
  then have "s_engine t = s_engine s" "r \<in> {None, Some (floats_of_bytes data)}"
    by (auto simp: binary_guard_def Let_def split: if_splits)
  then show ?thesis using take_audio_frame(8) [of d now "floats_of_bytes data" t]
    by (auto simp: handleBinaryMessage_def g)
qed

lemma handleEnd_frame [simp]:
  "configured (snd (handleEnd d s)) = configured s"
  "model_acquired (snd (handleEnd d s)) = model_acquired s"
  "s_config (snd (handleEnd d s)) = s_config s"
  "s_engine (snd (handleEnd d s)) = map_option (\<lambda>e. snd (transcribeSlidingWindow (whisper d) True e)) (s_engine s)"
  by (simp_all add: handleEnd_def end_collect_def end_send_def split: option.split prod.split sum.split)

lemmas session_frames = sendMessage_frame sendError_frame close_ws_frame take_audio_frame
  handleBinary_frame handleEnd_frame raw_fallback_frame

section \<open>The invariant of a session and the cache\<close>

text \<open>
  An engine belongs to a configured session that holds a reference, and its model is the
  loaded one.
\<close>

definition sess_inv :: "world \<Rightarrow> session \<Rightarrow> bool" where
  "sess_inv w s \<longleftrightarrow> cache_ok (cfg_model_path (s_config s)) (w_cache w)
     \<and> (configured s \<longleftrightarrow> s_engine s \<noteq> None)
     \<and> (\<forall>e. s_engine s = Some e \<longrightarrow> model_acquired s \<and> engine_ok e \<and> ctx (w_cache w) = Some (eng_ctx e))
     \<and> (model_acquired s \<longrightarrow> 0 < ref_count (w_cache w))"

lemma sess_inv_new: "cache_ok (cfg_model_path cfg) (w_cache w) \<Longrightarrow> sess_inv w (new_session cfg sid now)"
  by (simp add: sess_inv_def new_session_def)

text \<open>Anything that only touches the engine, by an operation that keeps it well-formed.\<close>

lemma sess_inv_engine:
  assumes "sess_inv w s" and "s_config s' = s_config s" and "configured s' = configured s"
    and "model_acquired s' = model_acquired s" and "s_engine s' = map_option f (s_engine s)"
    and "\<And>e. engine_ok e \<Longrightarrow> engine_ok (f e) \<and> eng_ctx (f e) = eng_ctx e"
  shows "sess_inv w s'"
  using assms by (auto simp: sess_inv_def)

lemma sess_inv_same:
  assumes "sess_inv w s" and "s_config s' = s_config s" and "configured s' = configured s"
    and "model_acquired s' = model_acquired s" and "s_engine s' = s_engine s"
  shows "sess_inv w s'"
  using assms by (simp add: sess_inv_def)

lemma auth_check_cache: "auth_check d t0 t1 msg w = (r, w1) \<Longrightarrow> w_cache w1 = w_cache w \<and> w_inf w1 = w_inf w"
  by (auto simp: auth_check_def Let_def split: if_splits sum.splits prod.splits)

lemma auth_check_enabled: "auth_check d t0 t1 msg w = (r, w1) \<Longrightarrow> auth_enabled (w_auth w1) = auth_enabled (w_auth w)"
  using auth_validate_frame(2) [of "net d" t0 t1 _ "w_auth w"]
  by (auto simp: auth_check_def Let_def split: if_splits sum.splits prod.splits) (metis snd_conv)+

lemma auth_check_None:
  assumes "auth_check d t0 t1 msg w = (None, w1)" and "isAuthEnabled (w_auth w)"
  shows "\<exists>tok. field msg ''token'' = JStr tok \<and> fst (auth_validate (net d) t0 t1 tok (w_auth w))"
  using assms by (auto simp: auth_check_def Let_def get_string_Inr split: if_splits sum.splits prod.splits)

text \<open>Preparing touches neither the shared cache and limiter nor what the mutex protects.\<close>

lemma prepare_frame:
  assumes "prepare_config d t0 t1 msg w s = (r, w1, s1)"
  shows "w_cache w1 = w_cache w" "w_inf w1 = w_inf w" "s_config s1 = s_config s" "configured s1 = configured s"
    "model_acquired s1 = model_acquired s" "s_engine s1 = s_engine s"
    "full_transcription s1 = full_transcription s" "raw_transcription s1 = raw_transcription s"
    "auth_enabled (w_auth w1) = auth_enabled (w_auth w)" "flush_running s1 = flush_running s"
proof -
  obtain ra wa where au: "auth_check d t0 t1 msg w = (ra, wa)" by fastforce
  have send: "flush_running (sendError d m c s) = flush_running s" for m c
    by (simp add: sendError_def sendMessage_def)
  have p: "w1 = wa \<and> s_config s1 = s_config s \<and> configured s1 = configured s \<and> model_acquired s1 = model_acquired s
    \<and> s_engine s1 = s_engine s \<and> full_transcription s1 = full_transcription s
    \<and> raw_transcription s1 = raw_transcription s \<and> flush_running s1 = flush_running s"
    using assms
    by (auto simp: prepare_config_def au close_ws_def sendError_def sendMessage_def Let_def
        split: option.splits sum.splits prod.splits if_splits)
  show "w_cache w1 = w_cache w" "w_inf w1 = w_inf w" using p auth_check_cache [OF au] by simp_all
  show "auth_enabled (w_auth w1) = auth_enabled (w_auth w)" using p auth_check_enabled [OF au] by simp
qed (use assms in \<open>auto simp: prepare_config_def close_ws_def sendError_def sendMessage_def Let_def
        split: option.splits sum.splits prod.splits if_splits\<close>)

lemma prepare_inv:
  assumes "sess_inv w s" and "prepare_config d t0 t1 msg w s = (r, w1, s1)"
  shows "sess_inv w1 s1"
  using assms(1) prepare_frame [OF assms(2)] by (simp add: sess_inv_def)

text \<open>Installing an engine for the loaded model, to which a reference is held.\<close>

lemma install_frame:
  assumes "install_engine d now vad cx s = (x, s1)"
  shows "model_acquired s1" "s_config s1 = s_config s" "ws_open s1 = ws_open s" "ws_link s1 = ws_link s"
    "ws_sent s1 = ws_sent s" "flush_running s1 = flush_running s" "configured s1 = (x = None \<or> configured s)"
    "s_engine s1 = s_engine s \<and> x \<noteq> None \<or> (\<exists>e. s_engine s1 = Some e \<and> x = None \<and> audio_buffer e = [])"
  using assms
  by (auto simp: install_engine_def new_engine_def setup_engine_def setter_defs Let_def split: sum.splits if_splits)

lemma install_inv:
  assumes "sess_inv w s" and "ctx (w_cache w) = Some cx" and "0 < ref_count (w_cache w)"
    and "install_engine d now vad cx s = (x, s1)"
  shows "sess_inv w s1"
proof (cases "new_engine (init_state d) (Some cx)")
  case (Inl e)
  then show ?thesis using assms by (auto simp: install_engine_def sess_inv_def)
next
  case (Inr e)
  have "engine_ok e" "eng_ctx e = cx" using engine_ok_new [OF Inr] eng_ctx_new [OF Inr] by simp_all
  then show ?thesis using assms setup_engine_ok by (auto simp: install_engine_def Inr sess_inv_def)
qed

text \<open>
  Acquiring: what was held stays valid, and either nothing is gained and no reference taken, or
  the loaded model is returned with one more reference.
\<close>

lemma acquire_cases:
  assumes "cache_ok path c" and "cache_acquire load path c = (r, c')"
  obtains (failed) x where "r = Inl x" "cache_ok path c'" "ref_count c' = ref_count c" "ref_count c = 0"
  | (got) cx where "r = Inr cx" "cache_ok path c'" "ref_count c' = ref_count c + 1" "ctx c' = Some cx"
      "0 < ref_count c \<longrightarrow> ctx c' = ctx c"
proof (cases r)
  case (Inl x)
  then show thesis
    using failed [of x] mcache.acq_err [OF assms(1)] assms ref_count_acquire_err [OF assms(1)]
    by (auto simp: cache_ok_def)
next
  case (Inr cx)
  then show thesis
    using got [of cx] mcache.acq_ok [OF assms(1)] assms(2) ref_count_acquire_ok [OF assms(1)]
      mcache.acq_shared [OF assms(1) _ assms(2)] by auto
qed

lemma acquire_sess_inv:
  assumes "sess_inv w s" and "cache_acquire load (cfg_model_path (s_config s)) (w_cache w) = (r, c')"
  shows "sess_inv (w\<lparr>w_cache := c'\<rparr>) s"
proof -
  have "cache_ok (cfg_model_path (s_config s)) (w_cache w)" using assms(1) by (simp add: sess_inv_def)
  from acquire_cases [OF this assms(2)] show ?thesis
    using assms(1) by cases (auto simp: sess_inv_def)
qed

text \<open>The effect of a config message on the reference count, and that it keeps the invariant.\<close>

definition refs_delta :: "world \<Rightarrow> session \<Rightarrow> world \<Rightarrow> session \<Rightarrow> bool" where
  "refs_delta w s w' s' \<longleftrightarrow>
     (ref_count (w_cache w') = ref_count (w_cache w) \<and> model_acquired s' = model_acquired s)
     \<or> (ref_count (w_cache w') = ref_count (w_cache w) + 1 \<and> model_acquired s')"

lemma acquire_engine_inv:
  assumes inv: "sess_inv w s" and a: "acquire_engine d now vad w s = (x, w', s')"
  shows "sess_inv w' s' \<and> refs_delta w s w' s'"
proof -
  obtain r c where acq: "cache_acquire (load_model d) (cfg_model_path (s_config s)) (w_cache w) = (r, c)" by fastforce
  have ok: "cache_ok (cfg_model_path (s_config s)) (w_cache w)" using inv by (simp add: sess_inv_def)
  have w1: "sess_inv (w\<lparr>w_cache := c\<rparr>) s" by (rule acquire_sess_inv [OF inv acq])
  from ok acq show ?thesis
  proof (cases rule: acquire_cases)
    case (failed e)
    then show ?thesis using w1 a by (auto simp: acquire_engine_def acq refs_delta_def Let_def)
  next
    case (got cx)
    obtain y s1 where i: "install_engine d now vad cx s = (y, s1)" by fastforce
    have pos: "0 < ref_count c" using got ok by (simp add: cache_ok_def)
    have "sess_inv (w\<lparr>w_cache := c\<rparr>) s1" using install_inv [OF w1 _ _ i] got pos by simp
    then have "sess_inv (w\<lparr>w_cache := c\<rparr>) (sendReady d s1)" by (simp add: sess_inv_def)
    then show ?thesis using a got install_frame(1) [OF i] \<open>sess_inv (w\<lparr>w_cache := c\<rparr>) s1\<close>
      by (auto simp: acquire_engine_def acq i refs_delta_def Let_def split: option.splits)
  qed
qed

lemma handleConfig_inv:
  assumes inv: "sess_inv w s" and h: "handleConfig d t0 t1 msg w s = (w', s')"
  shows "sess_inv w' s' \<and> refs_delta w s w' s'"
proof -
  obtain x w1 s1 where b: "config_body d t0 t1 msg w s = (x, w1, s1)" by (metis prod_cases3)
  obtain r wa sa where p: "prepare_config d t0 t1 msg w s = (r, wa, sa)" by (metis prod_cases3)
  have pi: "sess_inv wa sa" by (rule prepare_inv [OF inv p])
  have body: "sess_inv w1 s1 \<and> refs_delta w s w1 s1"
  proof (cases r)
    case (Inl y)
    then show ?thesis using b pi prepare_frame [OF p] by (simp add: config_body_def p refs_delta_def)
  next
    case (Inr v)
    then have "acquire_engine d t1 v wa sa = (x, w1, s1)" using b by (simp add: config_body_def p)
    from acquire_engine_inv [OF pi this] show ?thesis using prepare_frame [OF p] by (simp add: refs_delta_def)
  qed
  show ?thesis
  proof (cases x)
    case None
    then show ?thesis using h body by (simp add: handleConfig_def b)
  next
    case (Some e)
    then show ?thesis using h body sess_inv_same [of w1 s1 s']
      by (auto simp: handleConfig_def config_failed_def b refs_delta_def)
  qed
qed

section \<open>One frame, and the whole loop\<close>

text \<open>The frames that reach \<open>handleConfig\<close>.\<close>

definition is_config :: "deps \<Rightarrow> frame \<Rightarrow> bool" where
  "is_config d f = (case f of
       Text m \<Rightarrow> (case parse_json d m of
           Inr msg \<Rightarrow> contains msg ''type'' \<and> get_string (field msg ''type'') = Inr ''config''
         | Inl _ \<Rightarrow> False)
     | Binary _ \<Rightarrow> False)"

lemma handle_frame_config:
  assumes "is_config d f"
  obtains m msg where "f = Text m" "parse_json d m = Inr msg"
    "handle_frame d t0 t1 f w s = (None, handleConfig d t0 t1 msg w s)"
  using assms by (auto simp: is_config_def handle_frame_def handleJsonMessage_def
      split: frame.splits sum.splits option.splits)

lemma handle_frame_other:
  assumes "\<not> is_config d f" and "handle_frame d t0 t1 f w s = (x, w', s')"
  shows "w' = w \<and> s_config s' = s_config s \<and> configured s' = configured s
    \<and> model_acquired s' = model_acquired s
    \<and> (\<exists>g. s_engine s' = map_option g (s_engine s)
         \<and> (\<forall>e. engine_ok e \<longrightarrow> engine_ok (g e) \<and> eng_ctx (g e) = eng_ctx e))"
proof -
  have id: "\<exists>g. s_engine s = map_option g (s_engine s)
      \<and> (\<forall>e. engine_ok e \<longrightarrow> engine_ok (g e) \<and> eng_ctx (g e) = eng_ctx e)"
    by (rule exI [of _ id]) (simp add: option.map_id)
  show ?thesis
  proof (cases f)
    case (Binary data)
    then have s': "s' = handleBinaryMessage d t0 data s" "w' = w"
      using assms(2) by (simp_all add: handle_frame_def)
    consider "s_engine s' = s_engine s"
      | "s_engine s' = map_option (\<lambda>e. snd (push_chunk (audio_fault d) (floats_of_bytes data) e)) (s_engine s)"
      using handleBinary_engine [of d t0 data s] s' by auto
    then have "\<exists>g. s_engine s' = map_option g (s_engine s)
      \<and> (\<forall>e. engine_ok e \<longrightarrow> engine_ok (g e) \<and> eng_ctx (g e) = eng_ctx e)"
    proof cases
      case 2
      then show ?thesis by (intro exI conjI, assumption) (simp add: push_chunk_ok)
    qed (use id in simp)
    with s' show ?thesis by simp
  next
    case (Text m)
    show ?thesis
    proof (cases "s' = snd (handleEnd d s) \<and> w' = w")
      case True
      then show ?thesis
        by (intro conjI exI [of _ "\<lambda>e. snd (transcribeSlidingWindow (whisper d) True e)"])
          (simp_all add: engine_ok_infer)
    next
      case False
      then show ?thesis using assms Text id
        by (auto simp: is_config_def handle_frame_def handleJsonMessage_def Let_def
            split: sum.splits option.splits if_splits prod.splits)
    qed
  qed
qed

lemma handle_frame_inv:
  assumes "sess_inv w s" and "handle_frame d t0 t1 f w s = (x, w', s')"
  shows "sess_inv w' s'" and "refs_delta w s w' s'" and "\<not> is_config d f \<Longrightarrow> w' = w \<and> model_acquired s' = model_acquired s"
proof -
  have "sess_inv w' s' \<and> refs_delta w s w' s'"
  proof (cases "is_config d f")
    case True
    from handle_frame_config [OF True, of t0 t1 w s] obtain m msg where
      "handleConfig d t0 t1 msg w s = (w', s')" using assms(2) by (metis snd_conv)
    then show ?thesis by (rule handleConfig_inv [OF assms(1)])
  next
    case False
    note h = handle_frame_other [OF False assms(2)]
    then obtain g where "s_engine s' = map_option g (s_engine s)"
      "\<And>e. engine_ok e \<Longrightarrow> engine_ok (g e) \<and> eng_ctx (g e) = eng_ctx e" by auto
    with h show ?thesis using sess_inv_engine [OF assms(1), of s' g] by (simp add: refs_delta_def)
  qed
  then show "sess_inv w' s'" and "refs_delta w s w' s'" by simp_all
  show "\<not> is_config d f \<Longrightarrow> w' = w \<and> model_acquired s' = model_acquired s"
    using handle_frame_other [OF _ assms(2)] by simp
qed

text \<open>References taken during a run: at most one per config frame, and flagged if any.\<close>

lemma run_loop_refs:
  assumes "sess_inv w s" and "run_loop d fs w s = (x, w', s')"
  shows "sess_inv w' s' \<and> (\<exists>k. ref_count (w_cache w') = ref_count (w_cache w) + int k
    \<and> k \<le> length (filter (\<lambda>(t0, t1, f). is_config d f) fs)
    \<and> model_acquired s' = (model_acquired s \<or> 0 < k))"
  using assms
proof (induction d fs w s rule: run_loop.induct)
  case (2 d t0 t1 f fs w s)
  show ?case
  proof (cases "ws_open s \<and> ws_link s")
    case False
    with 2 show ?thesis by auto
  next
    case True
    obtain y w1 s1 where h: "handle_frame d t0 t1 f w s = (y, w1, s1)" by (metis prod_cases3)
    note inv = handle_frame_inv [OF 2(2) h]
    obtain j where j: "ref_count (w_cache w1) = ref_count (w_cache w) + int j"
      "j \<le> (if is_config d f then 1 else 0)" "model_acquired s1 = (model_acquired s \<or> 0 < j)"
      using inv(2,3) unfolding refs_delta_def
      by (cases "is_config d f") (metis One_nat_def add.right_neutral int_ops(1) int_ops(2) le0 le_refl zero_less_one less_numeral_extra(3))+
    show ?thesis
    proof (cases y)
      case (Some e)
      then have "w' = w1" "s' = s1" using 2(3) True h by simp_all
      with inv(1) j show ?thesis by (intro conjI exI [of _ j]) auto
    next
      case None
      then have r: "run_loop d fs w1 s1 = (x, w', s')" using 2(3) True h by simp
      from 2(1) [OF _ h [symmetric] _ _ inv(1) r] True None obtain k where k: "sess_inv w' s'"
        "ref_count (w_cache w') = ref_count (w_cache w1) + int k"
        "k \<le> length (filter (\<lambda>(t0, t1, f). is_config d f) fs)"
        "model_acquired s' = (model_acquired s1 \<or> 0 < k)" by auto
      with j show ?thesis by (intro conjI exI [of _ "j + k"]) auto
    qed
  qed
qed auto

lemma releaseModel_refs:
  assumes "sess_inv w s" and "releaseModel now w s = (w', s')"
  shows "ref_count (w_cache w') = ref_count (w_cache w) - of_bool (model_acquired s)
    \<and> \<not> model_acquired s' \<and> cache_ok (cfg_model_path (s_config s)) (w_cache w')"
proof (cases "model_acquired s")
  case True
  then have "ref_count (cache_release now (w_cache w)) = ref_count (w_cache w) - 1"
    using assms(1) by (intro ref_count_release) (auto simp: sess_inv_def)
  then show ?thesis using True assms cache_ok_release by (auto simp: releaseModel_def sess_inv_def)
qed (use assms in \<open>auto simp: releaseModel_def sess_inv_def\<close>)

lemma run_session_refs:
  assumes "cache_ok (cfg_model_path cfg) (w_cache w)"
    and "run_session d t fs w (new_session cfg sid now) = (w', s')"
  shows "\<exists>k. ref_count (w_cache w') = ref_count (w_cache w) + int k - of_bool (0 < k)
    \<and> k \<le> length (filter (\<lambda>(t0, t1, f). is_config d f) fs) \<and> \<not> model_acquired s'"
proof -
  let ?s = "(new_session cfg sid now)\<lparr>flush_running := True\<rparr>"
  have inv: "sess_inv w ?s" using assms(1) by (simp add: sess_inv_def new_session_def)
  obtain x w1 s1 where r: "run_loop d fs w ?s = (x, w1, s1)" by (metis prod_cases3)
  from run_loop_refs [OF inv r] obtain k where k: "sess_inv w1 s1"
    "ref_count (w_cache w1) = ref_count (w_cache w) + int k"
    "k \<le> length (filter (\<lambda>(t0, t1, f). is_config d f) fs)" "model_acquired s1 = (0 < k)"
    by (auto simp: new_session_def)
  have "releaseModel t w1 s1 = (w', s')" using assms(2) r by (simp add: run_session_def)
  from releaseModel_refs [OF k(1) this] k show ?thesis by (intro exI [of _ k]) auto
qed

section \<open>Config frames that succeed\<close>

lemma cache_acquire_loads: "load path \<Longrightarrow> \<exists>x c'. cache_acquire load path c = (Inr x, c')"
  by (cases "ctx c") (auto simp: cache_acquire_def cancelUnloadLocked_def Let_def)

definition good_config :: "deps \<Rightarrow> string \<Rightarrow> bool" where
  "good_config d m = (case parse_json d m of
       Inr msg \<Rightarrow> contains msg ''type'' \<and> field msg ''type'' = JStr ''config''
         \<and> (contains msg ''language'' \<longrightarrow> is_string (field msg ''language''))
     | Inl _ \<Rightarrow> False)"

lemma good_config_step:
  assumes "good_config d m" and "\<not> auth_enabled (w_auth w)" and "sess_inv w s"
    and "load_model d (cfg_model_path (s_config s))" and "\<forall>c. init_state d c"
    and "handle_frame d t0 t1 (Text m) w s = (x, w', s')"
  shows "x = None \<and> sess_inv w' s' \<and> ref_count (w_cache w') = ref_count (w_cache w) + 1 \<and> model_acquired s'
    \<and> \<not> auth_enabled (w_auth w') \<and> s_config s' = s_config s \<and> ws_open s' = ws_open s \<and> ws_link s' = ws_link s"
proof -
  let ?p = "cfg_model_path (s_config s)"
  obtain msg where msg: "parse_json d m = Inr msg" "contains msg ''type''" "field msg ''type'' = JStr ''config''"
    "contains msg ''language'' \<longrightarrow> is_string (field msg ''language'')"
    using assms(1) by (auto simp: good_config_def split: sum.splits)
  have ok: "cache_ok ?p (w_cache w)" using assms(3) by (simp add: sess_inv_def)
  have au: "auth_check d t0 t1 msg w = (None, w)" using assms(2) by (simp add: auth_check_def isAuthEnabled_def)
  obtain l where l: "(if contains msg ''language'' then get_string (field msg ''language'') else Inr (s_language s)) = Inr l"
    using msg(4) get_string_is_string by (cases "contains msg ''language''") auto
  obtain v where v: "get_vad msg = Inr v"
    using get_float_is_number by (cases "contains msg ''vad_thold'' \<and> is_number (field msg ''vad_thold'')")
      (auto simp: get_vad_def)
  obtain cx c where acq: "cache_acquire (load_model d) ?p (w_cache w) = (Inr cx, c)"
    using cache_acquire_loads [of "load_model d" ?p "w_cache w"] assms(4) by auto
  obtain e where e: "new_engine (init_state d) (Some cx) = Inr e" using assms(5) by (simp add: new_engine_def)
  let ?s = "s\<lparr>s_language := l\<rparr>"
  have body: "config_body d t0 t1 msg w s = acquire_engine d t1 v w ?s"
    by (simp add: config_body_def prepare_config_def au l v)
  obtain s1 where a: "acquire_engine d t1 v w ?s = (None, w\<lparr>w_cache := c\<rparr>, s1)"
    and s1: "s_config s1 = s_config s" "model_acquired s1" "ws_open s1 = ws_open s" "ws_link s1 = ws_link s"
    using acq e by (simp add: acquire_engine_def install_engine_def Let_def sendReady_def)
  have "(x, w', s') = (None, w\<lparr>w_cache := c\<rparr>, s1)"
    using assms(6) msg by (simp add: handle_frame_def handleJsonMessage_def handleConfig_def config_failed_def body a)
  moreover have "sess_inv w' s'" by (rule handle_frame_inv(1) [OF assms(3,6)])
  moreover have "ref_count c = ref_count (w_cache w) + 1" by (rule ref_count_acquire_ok [OF ok acq])
  ultimately show ?thesis using s1 assms(2) by simp
qed

lemma good_configs_run:
  assumes "\<forall>(t0, t1, f) \<in> set fs. \<exists>m. f = Text m \<and> good_config d m" and "\<not> auth_enabled (w_auth w)"
    and "sess_inv w s" and "load_model d (cfg_model_path (s_config s))" and "\<forall>c. init_state d c"
    and "ws_open s" and "ws_link s" and "run_loop d fs w s = (x, w', s')"
  shows "sess_inv w' s' \<and> ref_count (w_cache w') = ref_count (w_cache w) + int (length fs)
    \<and> model_acquired s' = (model_acquired s \<or> fs \<noteq> []) \<and> s_config s' = s_config s"
  using assms
proof (induction d fs w s rule: run_loop.induct)
  case (2 d t0 t1 f fs w s)
  obtain m where m: "f = Text m" "good_config d m" using 2(2) by auto
  obtain y w1 s1 where h: "handle_frame d t0 t1 f w s = (y, w1, s1)" by (metis prod_cases3)
  note g = good_config_step [OF m(2) 2(3,4,5,6) h [unfolded m(1)]]
  have r: "run_loop d fs w1 s1 = (x, w', s')" using 2(7-9) h g by simp
  have "sess_inv w' s' \<and> ref_count (w_cache w') = ref_count (w_cache w1) + int (length fs)
    \<and> model_acquired s' = (model_acquired s1 \<or> fs \<noteq> []) \<and> s_config s' = s_config s1"
    by (rule 2(1) [OF _ h [symmetric]]) (use 2 g r in auto)
  with g show ?case by simp
qed auto

section \<open>Authentication before configuration\<close>

lemma configured_by_config:
  assumes "handle_frame d t0 t1 f w s = (x, w', s')" and "\<not> configured s" and "configured s'"
    and "isAuthEnabled (w_auth w)"
  shows "\<exists>m msg tok. f = Text m \<and> parse_json d m = Inr msg \<and> field msg ''token'' = JStr tok
    \<and> fst (auth_validate (net d) t0 t1 tok (w_auth w))"
proof (cases "is_config d f")
  case False
  then show ?thesis using handle_frame_other [OF False assms(1)] assms(2,3) by simp
next
  case True
  from handle_frame_config [OF True, of t0 t1 w s] obtain m msg where
    m: "f = Text m" "parse_json d m = Inr msg" "handleConfig d t0 t1 msg w s = (w', s')"
    using assms(1) by (metis snd_conv)
  obtain r wa where au: "auth_check d t0 t1 msg w = (r, wa)" by fastforce
  have "r = None"
  proof (rule ccontr)
    assume "r \<noteq> None"
    then obtain mg c where r: "r = Some (mg, c)" by auto
    obtain y s1 where cl: "close_ws Policy_Error (sendError d mg c s) = (y, s1)" by fastforce
    then have "configured s1 = configured s"
      using close_ws_frame(2) [of Policy_Error "sendError d mg c s"] by simp
    then show False using m(3) assms(2,3)
      by (auto simp: handleConfig_def config_failed_def config_body_def prepare_config_def au r cl split: option.splits)
  qed
  then show ?thesis using m auth_check_None [of d t0 t1 msg w wa] au assms(4) by auto
qed

lemma handle_frame_auth:
  assumes "handle_frame d t0 t1 f w s = (x, w', s')"
  shows "isAuthEnabled (w_auth w') = isAuthEnabled (w_auth w)"
proof (cases "is_config d f")
  case False
  then show ?thesis using handle_frame_other [OF False assms] by simp
next
  case True
  from handle_frame_config [OF True, of t0 t1 w s] obtain m msg where
    h: "handleConfig d t0 t1 msg w s = (w', s')" using assms by (metis snd_conv)
  obtain r wa where au: "auth_check d t0 t1 msg w = (r, wa)" by fastforce
  have "w_auth w' = w_auth wa"
    using h by (auto simp: handleConfig_def config_failed_def config_body_def prepare_config_def au acquire_engine_def install_engine_def Let_def
        split: prod.splits option.splits sum.splits)
  with auth_check_enabled [OF au] show ?thesis by (simp add: isAuthEnabled_def)
qed

section \<open>Incoming audio\<close>

definition valid_frame :: "8 word list \<Rightarrow> bool" where
  "valid_frame data \<longleftrightarrow> 4 \<le> length data \<and> length data \<le> MAX_FRAME_BYTES \<and> length data mod 4 = 0"

definition receive_all :: "deps \<Rightarrow> (int \<times> 8 word list) list \<Rightarrow> session \<Rightarrow> session" where
  "receive_all d fs s = fold (\<lambda>(t, data). handleBinaryMessage d t data) fs s"

definition bytes_of :: "(int \<times> 8 word list) list \<Rightarrow> nat" where
  "bytes_of fs = sum_list (map (\<lambda>(t, data). length data) fs)"

lemma valid_in_window:
  assumes "valid_frame data" and "configured s" and "now < rate_limit_start s + 3000"
  shows "handleBinaryMessage d now data s = take_audio d now (floats_of_bytes data)
    (s\<lparr>bytes_in_window := (bytes_in_window s + length data) mod 2 ^ 64\<rparr>)"
proof -
  have "(now - rate_limit_start s) div 1000 < 3" using assms(3) by simp
  then show ?thesis using assms(1,2)
    by (auto simp: handleBinaryMessage_def binary_guard_def valid_frame_def Let_def)
qed

lemma receive_all_window:
  assumes "\<forall>(t, data) \<in> set fs. valid_frame data \<and> t < rate_limit_start s + 3000"
    and "configured s" and "bytes_in_window s + bytes_of fs < 2 ^ 64"
  shows "bytes_in_window (receive_all d fs s) = bytes_in_window s + bytes_of fs
    \<and> rate_limit_start (receive_all d fs s) = rate_limit_start s \<and> configured (receive_all d fs s)
    \<and> ws_open (receive_all d fs s) = ws_open s \<and> ws_link (receive_all d fs s) = ws_link s"
  using assms
proof (induction fs arbitrary: s)
  case (Cons f fs)
  obtain t data where f: "f = (t, data)" by fastforce
  let ?s = "handleBinaryMessage d t data s"
  have s: "?s = take_audio d t (floats_of_bytes data) (s\<lparr>bytes_in_window := bytes_in_window s + length data\<rparr>)"
    using valid_in_window [of data s t d] Cons.prems by (simp add: f bytes_of_def)
  have "receive_all d (f # fs) s = receive_all d fs ?s" by (simp add: receive_all_def f)
  moreover have "bytes_in_window ?s = bytes_in_window s + length data" "rate_limit_start ?s = rate_limit_start s"
    "configured ?s" "ws_open ?s = ws_open s" "ws_link ?s = ws_link s"
    using s Cons.prems(2) by simp_all
  moreover note Cons.IH [of ?s]
  ultimately show ?case using Cons.prems by (simp add: f bytes_of_def)
qed (simp add: receive_all_def bytes_of_def)

lemma valid_after_window:
  assumes "valid_frame data" and "configured s" and "rate_limit_start s + 3000 \<le> now"
    and "bytes_in_window s + length data < 2 ^ 64"
  shows "handleBinaryMessage d now data s =
    (if MAX_BYTES_PER_WINDOW < bytes_in_window s + length data
     then close_ws_ec Policy_Error (s\<lparr>bytes_in_window := bytes_in_window s + length data\<rparr>)
     else take_audio d now (floats_of_bytes data) (s\<lparr>rate_limit_start := now, bytes_in_window := 0\<rparr>))"
proof -
  have "3 \<le> (now - rate_limit_start s) div 1000" using assms(3) by linarith
  then show ?thesis using assms(1,2,4)
    by (auto simp: handleBinaryMessage_def binary_guard_def valid_frame_def Let_def)
qed

section \<open>Warnings\<close>

definition push_all :: "deps \<Rightarrow> (int \<times> float32 list) list \<Rightarrow> session \<Rightarrow> session" where
  "push_all d cs s = fold (\<lambda>(t, a). take_audio d t a) cs s"

lemma push_all_flagged:
  assumes "configured s" and "s_engine s = Some e" and "buffer_overflowed s"
    and "HIGH_WATER_MARK \<le> getBufferSize e" and "audio_fault d = No_Fault"
  shows "ws_sent (push_all d cs s) = ws_sent s \<and> buffer_overflowed (push_all d cs s)"
  using assms
proof (induction cs arbitrary: s)
  case (Cons c cs)
  obtain t a where c: "c = (t, a)" by fastforce
  have "processAudioChunk a e = (True, e)"
    using Cons.prems(4) by (simp add: processAudioChunk_dropped getBufferSize_def)
  then have "take_audio d t a s = s\<lparr>last_audio_time := t, s_engine := Some e, buffer_overflowed := True\<rparr>"
    using Cons.prems by (simp add: take_audio_def sessionAudio_def store_audio_def)
  with Cons.IH [of "take_audio d t a s"] Cons.prems show ?case by (simp add: push_all_def c)
qed (simp add: push_all_def)

lemma push_all_warns_once:
  assumes "configured s" and "s_engine s = Some e" and "\<not> buffer_overflowed s"
    and "ws_open s" and "ws_link s" and "can_dump d warning_msg" and "audio_fault d = No_Fault"
  shows "ws_sent (push_all d cs s)
    = ws_sent s @ (if buffer_overflowed (push_all d cs s) then [warning_msg] else [])"
  using assms
proof (induction cs arbitrary: s e)
  case (Cons c cs)
  obtain t a where c: "c = (t, a)" by fastforce
  obtain ov e' where p: "processAudioChunk a e = (ov, e')" by fastforce
  let ?s = "s\<lparr>last_audio_time := t, s_engine := Some e', buffer_overflowed := ov\<rparr>"
  have s: "take_audio d t a s = (if ov then sendMessage d warning_msg ?s else ?s)"
    using Cons.prems by (simp add: take_audio_def sessionAudio_def store_audio_def p)
  have st: "push_all d (c # cs) s = push_all d cs (take_audio d t a s)" by (simp add: push_all_def c)
  show ?case
  proof (cases ov)
    case True
    then have "HIGH_WATER_MARK \<le> getBufferSize e" "e' = e"
      using processAudioChunk_overflow [of a e] processAudioChunk_dropped [of e a] p
      by (simp_all add: getBufferSize_def)
    with True push_all_flagged [of "sendMessage d warning_msg ?s" e' d cs] Cons.prems
    show ?thesis by (simp add: st s) (simp add: sendMessage_def)
  next
    case False
    with Cons.IH [of ?s e'] Cons.prems show ?thesis by (simp add: st s)
  qed
qed (simp add: push_all_def)

section \<open>Session identifiers\<close>

text \<open>Two sessions have the same identifier only in the same millisecond and with the same random number.\<close>

lemma to_string_nat_inj: "to_string_nat a = to_string_nat b \<Longrightarrow> a = b"
  using to_string_nat_digits by metis

lemma generateSessionId_inj:
  assumes "generateSessionId t n = generateSessionId t' n'"
  shows "t = t' \<and> n = n'"
proof -
  have tw: "takeWhile isdigit (to_string_nat k @ ''-'' @ r) = to_string_nat k" for k r
    using to_string_nat_digits [of k] by (simp add: takeWhile_append2 list_all_iff isdigit_def)
  have eq: "to_string_nat t @ ''-'' @ to_string_nat n = to_string_nat t' @ ''-'' @ to_string_nat n'"
    using assms by (simp add: generateSessionId_def)
  then have "to_string_nat t = to_string_nat t'" using tw by metis
  moreover from this have "to_string_nat n = to_string_nat n'" using eq by simp
  ultimately show ?thesis using to_string_nat_inj by blast
qed

section \<open>Properties\<close>

definition demo_deps :: deps where
  "demo_deps = \<lparr>net = offline,
     parse_json = (\<lambda>m. if m = ''config'' then Inr (JObj [(''type'', JStr ''config'')])
       else if m = ''login'' then Inr (JObj [(''type'', JStr ''config''), (''token'', JStr ''k'')])
       else if m = ''odd'' then Inr (JObj [(''type'', JInt 1)])
       else Inl (Some ''syntax error'')),
     can_dump = (\<lambda>_. True), lib_what = (\<lambda>_. ''error''), load_model = (\<lambda>_. True),
     init_state = (\<lambda>_. True), whisper = decodes [(300, Some ''hi'')], audio_fault = No_Fault, cancel_blocking = False\<rparr>"

definition demo_config :: session_config where
  "demo_config = \<lparr>cfg_model_path = ''m'', cfg_beam_size = 5, cfg_threads = 4, cfg_prompt = [], cfg_timeout_sec = 30,
     cfg_temperature = FNum 0, cfg_temperature_inc = FNum 0, cfg_no_speech_thold = FNum 0, cfg_logprob_thold = FNum 0\<rparr>"

definition demo_world :: "string \<Rightarrow> world" where
  "demo_world token = \<lparr>w_auth = new_auth_manager (api_cfg\<lparr>api_base_url := [], static_token := token\<rparr>),
     w_cache = new_cache, w_inf = new_inference_limiter\<rparr>"

definition live_session :: "engine \<Rightarrow> session" where
  "live_session e = (new_session demo_config ''id'' 0)\<lparr>configured := True, s_engine := Some e, model_acquired := True\<rparr>"

text \<open>C19: However a session goes and ends, with at most one config message it gives back exactly the
  model references it took, and destroying it afterwards gives back nothing more.\<close>

theorem session_returns_reference:
  assumes "cache_ok (cfg_model_path cfg) (w_cache w)"
    and "length (filter (\<lambda>(t0, t1, f). is_config d f) fs) \<le> 1"
    and "run_session d t fs w (new_session cfg sid now) = (w', s')"
  shows "refCount (w_cache w') = refCount (w_cache w) \<and> fst (destroy_session t' w' s') = w'"
  using run_session_refs [OF assms(1,3)] assms(2)
  by (auto simp: refCount_def destroy_session_def releaseModel_def)

theorem session_returns_reference_witness:
  "refCount (w_cache (fst (run_session demo_deps 9 [(1, 1, Text ''config''), (2, 2, Text ''odd'')]
      (demo_world []) (new_session demo_config ''id'' 0)))) = 0"
  using session_returns_reference [of demo_config "demo_world []" demo_deps
      "[(1, 1, Text ''config''), (2, 2, Text ''odd'')]" 9 "''id''" 0 _ _ 0, OF _ _ prod.collapse [symmetric]]
  by (simp add: demo_world_def is_config_def demo_deps_def refCount_def) (simp add: new_cache_def)

text \<open>C20: Every config message after the first takes a further reference that is never given back:
  after \<open>n\<close> successful config messages and the end of the session, \<open>n - 1\<close> references
  remain, and the model is never unloaded.\<close>

theorem repeated_config_leaks:
  assumes "cache_ok (cfg_model_path cfg) (w_cache w)" and "\<not> isAuthEnabled (w_auth w)"
    and "load_model d (cfg_model_path cfg)" and "\<forall>c. init_state d c"
    and "\<forall>(t0, t1, f) \<in> set fs. \<exists>m. f = Text m \<and> good_config d m" and "fs \<noteq> []"
    and "run_session d t fs w (new_session cfg sid now) = (w', s')"
  shows "refCount (w_cache w') = refCount (w_cache w) + int (length fs) - 1"
proof -
  let ?s = "(new_session cfg sid now)\<lparr>flush_running := True\<rparr>"
  have inv: "sess_inv w ?s" using assms(1) by (simp add: sess_inv_def new_session_def)
  obtain x w1 s1 where r: "run_loop d fs w ?s = (x, w1, s1)" by (metis prod_cases3)
  have "sess_inv w1 s1 \<and> ref_count (w_cache w1) = ref_count (w_cache w) + int (length fs) \<and> model_acquired s1"
    using good_configs_run [OF assms(5) _ inv _ assms(4) _ _ r] assms(2,3,6)
    by (simp add: isAuthEnabled_def new_session_def)
  moreover have "releaseModel t w1 s1 = (w', s')" using assms(7) r by (simp add: run_session_def)
  ultimately show ?thesis using releaseModel_refs [of w1 s1 t w' s'] by (simp add: refCount_def)
qed

theorem repeated_config_leaks_witness:
  "refCount (w_cache (fst (run_session demo_deps 9 [(1, 1, Text ''config''), (2, 2, Text ''config'')]
      (demo_world []) (new_session demo_config ''id'' 0)))) = 1"
  using repeated_config_leaks [of demo_config "demo_world []" demo_deps
      "[(1, 1, Text ''config''), (2, 2, Text ''config'')]" 9 "''id''" 0, OF _ _ _ _ _ _ prod.collapse [symmetric]]
  by (simp add: demo_world_def demo_deps_def refCount_def good_config_def isAuthEnabled_def new_auth_manager_def api_cfg_def)
    (simp add: new_cache_def)

text \<open>With authentication enabled, a session becomes configured only through a config message
  whose token was accepted, by the state of the server at that moment.\<close>

theorem configured_only_with_accepted_token:
  assumes "run_loop d fs w s = (x, w', s')" and "isAuthEnabled (w_auth w)"
    and "\<not> configured s" and "configured s'"
  shows "\<exists>fs1 t0 t1 m fs2 w1 s1 msg tok. fs = fs1 @ (t0, t1, Text m) # fs2
    \<and> run_loop d fs1 w s = (Some System_Error, w1, s1)
    \<and> parse_json d m = Inr msg \<and> field msg ''token'' = JStr tok
    \<and> fst (auth_validate (net d) t0 t1 tok (w_auth w1))"
  using assms
proof (induction d fs w s rule: run_loop.induct)
  case (2 d t0 t1 f fs w s)
  have op: "ws_open s \<and> ws_link s" using 2(2,4,5) by (auto split: if_splits)
  obtain y w1 s1 where h: "handle_frame d t0 t1 f w s = (y, w1, s1)" by (metis prod_cases3)
  show ?case
  proof (cases "configured s1")
    case True
    from configured_by_config [OF h 2(4) True 2(3)] show ?thesis
      by (intro exI [of _ "[]"]) auto
  next
    case False
    then have y: "y = None" using 2(2,5) op h by (cases y) auto
    then have r: "run_loop d fs w1 s1 = (x, w', s')" using 2(2) op h by simp
    have "isAuthEnabled (w_auth w1)" using handle_frame_auth [OF h] 2(3) by simp
    from 2(1) [OF _ h [symmetric] y refl r this False 2(5)] op obtain fs1 u0 u1 m fs2 w2 s2 msg tok where
      ih: "fs = fs1 @ (u0, u1, Text m) # fs2" "run_loop d fs1 w1 s1 = (Some System_Error, w2, s2)"
      "parse_json d m = Inr msg" "field msg ''token'' = JStr tok"
      "fst (auth_validate (net d) u0 u1 tok (w_auth w2))" by blast
    have "run_loop d ((t0, t1, f) # fs1) w s = (Some System_Error, w2, s2)" using op h y ih(2) by simp
    with ih show ?thesis by (metis append_Cons)
  qed
qed auto

theorem configured_only_with_accepted_token_witness:
  "\<exists>fs1 t0 t1 m fs2 w1 s1 msg tok. [(1, 1, Text ''login'')] = fs1 @ (t0, t1, Text m) # fs2
    \<and> run_loop demo_deps fs1 (demo_world ''k'') (new_session demo_config ''id'' 0) = (Some System_Error, w1, s1)
    \<and> parse_json demo_deps m = Inr msg \<and> field msg ''token'' = JStr tok
    \<and> fst (auth_validate (net demo_deps) t0 t1 tok (w_auth w1))"
proof -
  obtain x w' s' where r: "run_loop demo_deps [(1, 1, Text ''login'')] (demo_world ''k'')
      (new_session demo_config ''id'' 0) = (x, w', s')" by (metis prod_cases3)
  have "configured s'"
    using r by (simp add: handle_frame_def handleJsonMessage_def handleConfig_def config_failed_def config_body_def prepare_config_def auth_check_def
        demo_deps_def demo_world_def new_session_def isAuthEnabled_def new_auth_manager_def auth_validate_static
        get_vad_def acquire_engine_def install_engine_def cache_acquire_def cancelUnloadLocked_def new_cache_def new_engine_def
        sendReady_def Let_def split: prod.splits) auto
  then show ?thesis
    by (intro configured_only_with_accepted_token [OF r])
      (simp_all add: new_session_def demo_world_def isAuthEnabled_def new_auth_manager_def)
qed

text \<open>C21: The rate limit is a fixed window that is only looked at when it is over: frames within
  three seconds of its start are all taken, whatever their number, and the first frame after
  that closes the connection exactly when the bytes since the start, itself included, exceed
  614400; otherwise it opens a new window. So a single frame above that size, allowed by the
  frame limit, closes the connection whenever it comes after the window.\<close>

theorem rate_limit_by_window:
  assumes "\<forall>(u, x) \<in> set fs. valid_frame x \<and> u < rate_limit_start s + 3000" and "configured s"
    and "bytes_in_window s = 0" and "bytes_of fs + length data < 2 ^ 64"
    and "ws_open s" and "ws_link s" and "valid_frame data" and "rate_limit_start s + 3000 \<le> t"
    and "s1 = receive_all d fs s" and "s2 = handleBinaryMessage d t data s1"
  shows "ws_open s1 \<and> (ws_open s2 \<longleftrightarrow> bytes_of fs + length data \<le> MAX_BYTES_PER_WINDOW)
    \<and> (ws_open s2 \<longrightarrow> bytes_in_window s2 = 0 \<and> rate_limit_start s2 = t)"
proof -
  have w: "bytes_in_window s1 = bytes_of fs" "rate_limit_start s1 = rate_limit_start s" "configured s1"
    "ws_open s1" "ws_link s1"
    using receive_all_window [OF assms(1,2), of d] assms(3-6,9) by simp_all
  have "s2 = (if MAX_BYTES_PER_WINDOW < bytes_in_window s1 + length data
      then close_ws_ec Policy_Error (s1\<lparr>bytes_in_window := bytes_in_window s1 + length data\<rparr>)
      else take_audio d t (floats_of_bytes data) (s1\<lparr>rate_limit_start := t, bytes_in_window := 0\<rparr>))"
    unfolding assms(10) using w assms(4,7,8) by (intro valid_after_window) simp_all
  then show ?thesis using w by (auto simp: close_ws_ec_def close_ws_def)
qed

theorem rate_limit_by_window_witness:
  "ws_open (receive_all demo_deps [(0, replicate 8 0)] (live_session engine0))
    \<and> \<not> ws_open (handleBinaryMessage demo_deps 3000 (replicate 700000 0)
        (receive_all demo_deps [(0, replicate 8 0)] (live_session engine0)))"
  using rate_limit_by_window [of "[(0, replicate 8 0)]" "live_session engine0" "replicate 700000 0" 3000 _ demo_deps,
      OF _ _ _ _ _ _ _ _ refl refl]
  by (simp add: live_session_def new_session_def valid_frame_def bytes_of_def)

text \<open>While the buffer is full the client is warned once: any number of chunks after a state
  without overflow sends a single warning if one of them is dropped and none otherwise, until
  decoding frees space again.\<close>

theorem one_warning_per_overflow:
  assumes "configured s" and "s_engine s = Some e" and "\<not> buffer_overflowed s"
    and "ws_open s" and "ws_link s" and "can_dump d warning_msg" and "audio_fault d = No_Fault"
  shows "ws_sent (push_all d cs s)
    = ws_sent s @ (if buffer_overflowed (push_all d cs s) then [warning_msg] else [])"
  by (rule push_all_warns_once [OF assms])

theorem one_warning_per_overflow_witness:
  "ws_sent (push_all demo_deps [(1, loud), (2, loud), (3, loud)]
     (live_session (engine0\<lparr>audio_buffer := replicate HIGH_WATER_MARK (FNum 0)\<rparr>))) = [warning_msg]"
proof -
  let ?e = "engine0\<lparr>audio_buffer := replicate HIGH_WATER_MARK (FNum 0)\<rparr>"
  have "processAudioChunk loud ?e = (True, ?e)" by (simp add: processAudioChunk_dropped)
  then have "buffer_overflowed (push_all demo_deps [(1, loud), (2, loud), (3, loud)] (live_session ?e))"
    by (simp add: push_all_def take_audio_def sessionAudio_def store_audio_def live_session_def new_session_def sendMessage_def demo_deps_def Let_def)
  then show ?thesis
    using one_warning_per_overflow [of "live_session ?e" ?e demo_deps "[(1, loud), (2, loud), (3, loud)]"]
    by (simp add: live_session_def new_session_def demo_deps_def)
qed

text \<open>A JSON message whose \<open>type\<close> is not a string is answered by nothing: the exception leaves the
  receive loop, the session ends without a reply or a closing handshake, and everything the
  client sent after it is lost.\<close>

theorem non_string_type_ends_session:
  assumes "parse_json d m = Inr msg" and "contains msg ''type''" and "\<not> is_string (field msg ''type'')"
    and "ws_open s" and "ws_link s"
  shows "run_session d t ((t0, t1, Text m) # fs) w s = releaseModel t w (s\<lparr>flush_running := True\<rparr>)"
proof -
  have "get_string (field msg ''type'') = Inl Type_Error"
    using assms(3) by (cases "field msg ''type''") auto
  with assms show ?thesis
    by (simp add: run_session_def handle_frame_def handleJsonMessage_def)
qed

theorem non_string_type_ends_session_witness:
  "run_session demo_deps 9 [(1, 1, Text ''odd''), (2, 2, Text ''config'')] (demo_world []) (new_session demo_config ''id'' 0)
    = releaseModel 9 (demo_world []) ((new_session demo_config ''id'' 0)\<lparr>flush_running := True\<rparr>)"
  by (rule non_string_type_ends_session [of _ _ "JObj [(''type'', JInt 1)]"])
    (simp_all add: demo_deps_def new_session_def)

text \<open>The same for a JSON message with a number that overflows: \<open>json::parse\<close> throws \<open>out_of_range\<close>.\<close>

lemma number_overflow_ends_session:
  assumes "parse_json d m = Inl None" and "ws_open s" and "ws_link s"
  shows "run_session d t ((t0, t1, Text m) # fs) w s = releaseModel t w (s\<lparr>flush_running := True\<rparr>)"
  using assms by (simp add: run_session_def handle_frame_def handleJsonMessage_def)

text \<open>C14: The end-of-stream message decodes what is left, answers with exactly one final
  transcription, the filtered text plus that rest, or the unfiltered text when this is empty,
  and closes normally. The answer is lost in two ways: a text that cannot be printed as JSON
  (it is not UTF-8) is dropped and the connection closed normally without it, and when the
  decoder fails, the text gathered so far is not sent and the exception leaves the handler.\<close>

theorem end_of_stream_outcome:
  assumes "s_engine s = Some e" and "ws_open s" and "ws_link s"
    and "transcribeSlidingWindow (whisper d) True e = (r, e')"
  shows "(case r of
      Inl x \<Rightarrow> handleEnd d s = (Some x, s\<lparr>s_engine := Some e'\<rparr>)
    | Inr res \<Rightarrow> \<exists>s' text. handleEnd d s = (None, s')
        \<and> text = (let t = full_transcription s @ committed_text res in if t = [] then raw_transcription s else t)
        \<and> ws_sent s' = ws_sent s @ (if can_dump d (transcription_msg text True) then [transcription_msg text True] else [])
        \<and> ws_close s' = Some Normal_Closure \<and> \<not> ws_open s')"
proof (cases r)
  case (Inl x)
  then show ?thesis using assms by (simp add: handleEnd_def end_collect_def)
next
  case (Inr res)
  then show ?thesis using assms
    by (auto simp: handleEnd_def end_collect_def end_send_def raw_fallback_def sendMessage_def close_ws_def Let_def)
qed

theorem end_of_stream_outcome_witness:
  "\<exists>s' text. handleEnd demo_deps (live_session full_window) = (None, s') \<and> text = ''hi''
    \<and> ws_sent s' = [transcription_msg text True] \<and> ws_close s' = Some Normal_Closure \<and> \<not> ws_open s'"
proof -
  have "transcribeSlidingWindow (whisper demo_deps) True full_window
      = (Inr \<lparr>partial_text = [], committed_text = ''hi''\<rparr>, full_window\<lparr>audio_buffer := []\<rparr>)"
    using transcribe_eq [of full_window _ "decodes [(300, Some ''hi'')]" True 0 0, OF _ refl]
    by (simp add: commit_decision_force full_window_def decodes_def engine0_def lock_language_def
        drop_committed_def segs_text_def demo_deps_def)
  from end_of_stream_outcome [OF _ _ _ this, of "live_session full_window"] show ?thesis
    by (simp add: live_session_def new_session_def demo_deps_def)
qed

text \<open>C39: A client that is not authenticated can forge lines of the log: whatever line of whatever time,
  level and session it wants, a message whose type contains that line after a line break makes
  the session write it as a line of its own, with or without debug output.\<close>

theorem client_can_forge_log_lines:
  assumes "parse_json d m = Inr msg" and "contains msg ''type''"
    and "get_string (field msg ''type'') = Inr (CHR 0x0A # snd (log_write ts' l fm fc))"
  shows "\<exists>before after. log_bytes no_debug ts (session_id s) (json_log d m s)
    = before @ [CHR 0x0A] @ snd (log_write ts' l fm fc) @ after"
proof -
  let ?t = "CHR 0x0A # snd (log_write ts' l fm fc)"
  obtain pre post calls where c: "json_log d m s = calls @ [(WARN, pre @ ?t @ post)]"
  proof (cases "configured s")
    case True
    then show thesis using assms by (intro that [of "[_]" "''Unknown message type: ''" "[]"]) (simp add: json_log_def)
  next
    case False
    then show thesis using assms
      by (intro that [of "[_]" "''Message type='' @ [CHR 0x27]" "[CHR 0x27] @ '' received before config''"])
        (simp add: json_log_def quoted_def)
  qed
  have eq: "log_bytes no_debug ts (session_id s) (json_log d m s) = log_bytes no_debug ts (session_id s) calls
      @ snd (log_write ts WARN (pre @ ?t @ post) (session_id s))"
    by (simp add: log_bytes_def c log_call_def log_write_def)
  obtain a b where "snd (log_write ts WARN (pre @ ?t @ post) (session_id s)) = a @ ?t @ b"
    by (intro that [of "ts @ '' '' @ tag WARN @ (if session_id s \<noteq> [] then '' ['' @ session_id s @ '']'' else []) @ '' '' @ pre"
          "post @ [CHR 0x0A]"]) (simp add: log_write_def)
  with eq have "log_bytes no_debug ts (session_id s) (json_log d m s)
      = (log_bytes no_debug ts (session_id s) calls @ a) @ [CHR 0x0A] @ snd (log_write ts' l fm fc) @ b" by simp
  then show ?thesis by blast
qed

definition forger :: deps where
  "forger = demo_deps\<lparr>parse_json := (\<lambda>m. Inr (JObj [(''type'', JStr (CHR 0x0A # snd (log_write ''t'' INFO ''Auth passed'' ''s'')))]))\<rparr>"

theorem client_can_forge_log_lines_witness:
  "\<exists>before after. log_bytes True ''u'' ''id'' (json_log forger ''x'' (new_session demo_config ''id'' 0))
    = before @ [CHR 0x0A] @ ''t [INFO]  [s] Auth passed'' @ [CHR 0x0A] @ after"
  using client_can_forge_log_lines [of forger "''x''" _ "''t''" INFO "''Auth passed''" "''s''" True "''u''" "new_session demo_config ''id'' 0"]
  by (simp add: forger_def demo_deps_def new_session_def log_write_def tag_def)

end
