(* ===== verification/Session_Flush.thy ===== *)
theory Session_Flush
  imports Session_Safety
begin

text \<open>
  \<open>flushLoop\<close> of \<open>src/server/StreamingSession.h\<close>, one turn of it: the thread of a session that
  runs the decoder on the window, filters hallucinations and sends partial transcriptions.
  The thread beside the receive loop is in \<open>Session_Threads\<close>.
\<close>

section \<open>One turn of the loop\<close>

text \<open>
  What a turn does once \<open>state_mutex_\<close> is held: nothing, an inference without a message, an
  inference with a message that is sent after the mutex is unlocked, or an exception, which
  leaves the thread.
\<close>

datatype flush_result = FSkip | FQuiet | FSend json | FThrow exn

abbreviation MIN_NEW_SAMPLES :: nat where "MIN_NEW_SAMPLES \<equiv> 4000"
abbreviation MIN_BUFFER_SAMPLES :: nat where "MIN_BUFFER_SAMPLES \<equiv> 32000"

definition committed_ok :: "transcribe_result \<Rightarrow> bool" where
  "committed_ok res = (committed_text res \<noteq> [] \<and> \<not> isHallucination (committed_text res))"

definition partial_ok :: "transcribe_result \<Rightarrow> bool" where
  "partial_ok res = (partial_text res \<noteq> [] \<and> \<not> isHallucination (partial_text res))"

text \<open>The subtraction and the comparisons are on \<open>size_t\<close>, 64 bits wide.\<close>

definition flush_wanted :: "int \<Rightarrow> nat \<Rightarrow> session \<Rightarrow> bool" where
  "flush_wanted now current_size s =
     (let elapsed_ms = now - last_audio_time s;
          enough_new_audio = (of_nat MIN_NEW_SAMPLES \<le> (of_nat current_size - last_transcribed_size s :: 64 word));
          silence_flush = (400 < elapsed_ms \<and> last_transcribed_size s < of_nat current_size)
      in enough_new_audio \<or> silence_flush)"

definition record_result :: "nat \<Rightarrow> transcribe_result \<Rightarrow> engine \<Rightarrow> session \<Rightarrow> session" where
  "record_result current_size res e s =
     (let s1 = (if buffer_overflowed s \<and> getBufferSize e < HIGH_WATER_MARK
                then s\<lparr>buffer_overflowed := False\<rparr> else s)
      in if committed_text res \<noteq> []
         then s1\<lparr>raw_transcription := raw_transcription s1 @ committed_text res,
                 full_transcription := (if committed_ok res then full_transcription s1 @ committed_text res
                                        else full_transcription s1),
                 last_transcribed_size := of_nat (getBufferSize e)\<rparr>
         else s1\<lparr>last_transcribed_size := of_nat current_size\<rparr>)"

text \<open>
  A turn in two parts, as the mutex and the slot are held from the first to the end of the
  second: the conditions and the attempt to get a slot, with the buffer size at that time;
  then the inference, the release of the slot and the book-keeping.
\<close>

definition flush_start :: "int \<Rightarrow> inference_limiter \<Rightarrow> session \<Rightarrow> nat option \<times> inference_limiter" where
  "flush_start now l s = (case s_engine s of
       None \<Rightarrow> (None, l)
     | Some e \<Rightarrow>
         if \<not> configured s then (None, l)
         else let current_size = getBufferSize e
         in if current_size < MIN_BUFFER_SAMPLES then (None, l)
         else if \<not> flush_wanted now current_size s then (None, l)
         else (case inf_try_acquire l of
             (False, l1) \<Rightarrow> (None, l1)
           | (True, l1) \<Rightarrow> (Some current_size, l1)))"

definition flush_infer :: "deps \<Rightarrow> nat \<Rightarrow> inference_limiter \<Rightarrow> session
    \<Rightarrow> flush_result \<times> inference_limiter \<times> session" where
  "flush_infer d current_size l s = (case s_engine s of
       None \<Rightarrow> (FSkip, l, s)
     | Some e \<Rightarrow>
         (case transcribeSlidingWindow (whisper d) False e of
            (Inl x, e') \<Rightarrow> (FThrow x, l, s\<lparr>s_engine := Some e'\<rparr>)
          | (Inr res, e') \<Rightarrow>
              let s1 = record_result current_size res e' (s\<lparr>s_engine := Some e'\<rparr>)
              in (if committed_ok res \<or> partial_ok res
                  then FSend (transcription_msg
                         (full_transcription s1 @ (if partial_ok res then partial_text res else [])) False)
                  else FQuiet,
                  inf_release l, s1)))"

definition flush_tick :: "deps \<Rightarrow> int \<Rightarrow> inference_limiter \<Rightarrow> session
    \<Rightarrow> flush_result \<times> inference_limiter \<times> session" where
  "flush_tick d now l s = (case flush_start now l s of
       (None, l1) \<Rightarrow> (FSkip, l1, s)
     | (Some current_size, l1) \<Rightarrow> flush_infer d current_size l1 s)"

section \<open>Lemmas: one turn\<close>

lemma record_result_frame [simp]:
  "s_engine (record_result n res e s) = s_engine s" "configured (record_result n res e s) = configured s"
  "model_acquired (record_result n res e s) = model_acquired s" "s_config (record_result n res e s) = s_config s"
  "ws_open (record_result n res e s) = ws_open s" "ws_link (record_result n res e s) = ws_link s"
  "ws_sent (record_result n res e s) = ws_sent s"
  by (simp_all add: record_result_def Let_def)

lemma record_result_text:
  "raw_transcription (record_result n res e s) = raw_transcription s @ committed_text res"
  "full_transcription (record_result n res e s) =
     full_transcription s @ (if committed_ok res then committed_text res else [])"
  by (simp_all add: record_result_def committed_ok_def Let_def)

lemmas flush_defs = flush_tick_def flush_start_def flush_infer_def

text \<open>The first part either changes nothing or takes a slot.\<close>

lemma flush_start_cases:
  obtains (idle) "flush_start now l s = (None, l)"
  | (go) e where "s_engine s = Some e" "configured s" "MIN_BUFFER_SAMPLES \<le> getBufferSize e"
      "flush_wanted now (getBufferSize e) s" "hasCapacity l"
      "flush_start now l s = (Some (getBufferSize e), l\<lparr>active_count := active_count l + 1\<rparr>)"
proof (cases "flush_start now l s")
  case (Pair r l')
  show thesis
  proof (cases r)
    case None
    then show thesis using Pair
      by (intro idle)
        (auto simp: flush_start_def inf_try_acquire_def Let_def split: option.splits if_splits)
  next
    case (Some n)
    then show thesis using Pair
      by (intro go [of "the (s_engine s)"])
        (auto simp: flush_start_def inf_try_acquire_def hasCapacity_def Let_def split: option.splits if_splits)
  qed
qed

text \<open>The second part fails and changes nothing, or records the result and gives the slot back.\<close>

lemma flush_infer_cases:
  assumes "s_engine s = Some e"
  obtains (throw) x where "transcribeSlidingWindow (whisper d) False e = (Inl x, e)"
      "flush_infer d n l s = (FThrow x, l, s)"
  | (ran) res e' where "transcribeSlidingWindow (whisper d) False e = (Inr res, e')"
      "flush_infer d n l s =
        (if committed_ok res \<or> partial_ok res
         then FSend (transcription_msg (full_transcription s @ (if committed_ok res then committed_text res else [])
                @ (if partial_ok res then partial_text res else [])) False)
         else FQuiet, inf_release l, record_result n res e' (s\<lparr>s_engine := Some e'\<rparr>))"
proof (cases "transcribeSlidingWindow (whisper d) False e")
  case (Pair r e')
  show thesis
  proof (cases r)
    case (Inl x)
    then have "e' = e" using Pair by (cases rule: transcribe_cases [of e "whisper d" False]) auto
    then show thesis using Pair Inl assms by (intro throw [of x]) (simp_all add: flush_infer_def)
  next
    case (Inr res)
    then show thesis using Pair assms
      by (intro ran [of res e']) (simp_all add: flush_infer_def record_result_text Let_def)
  qed
qed

text \<open>Together: nothing happens, or an inference ran.\<close>

lemma flush_tick_cases:
  obtains (skip) "flush_tick d now l s = (FSkip, l, s)"
  | (throw) e x where "s_engine s = Some e" "hasCapacity l"
      "transcribeSlidingWindow (whisper d) False e = (Inl x, e)"
      "flush_tick d now l s = (FThrow x, l\<lparr>active_count := active_count l + 1\<rparr>, s)"
  | (run) e res e' r where "s_engine s = Some e" "hasCapacity l"
      "transcribeSlidingWindow (whisper d) False e = (Inr res, e')"
      "flush_tick d now l s =
         (r, inf_release (l\<lparr>active_count := active_count l + 1\<rparr>),
          record_result (getBufferSize e) res e' (s\<lparr>s_engine := Some e'\<rparr>))"
      "r = (if committed_ok res \<or> partial_ok res
            then FSend (transcription_msg (full_transcription s @ (if committed_ok res then committed_text res else [])
                   @ (if partial_ok res then partial_text res else [])) False)
            else FQuiet)"
proof (cases rule: flush_start_cases [of now l s])
  case idle
  then show thesis by (intro skip) (simp add: flush_tick_def)
next
  case (go e)
  let ?l = "l\<lparr>active_count := active_count l + 1\<rparr>"
  from go(1) show thesis
  proof (cases rule: flush_infer_cases [of s e d "getBufferSize e" ?l])
    case (throw x)
    then show thesis using go by (intro that(2) [of e x]) (simp_all add: flush_tick_def)
  next
    case (ran res e')
    then show thesis using go by (intro that(3) [of e res e']) (simp_all add: flush_tick_def)
  qed
qed

text \<open>The scope of a turn: what was taken is given back, by the contract of the pool.\<close>

lemma slot_scope:
  assumes "inf_ok l" and "hasCapacity l"
  shows "inf_release (l\<lparr>active_count := active_count l + 1\<rparr>) = l"
proof -
  let ?l = "l\<lparr>active_count := active_count l + 1\<rparr>"
  have "inf_try_acquire l = (True, ?l)" using assms(2) by (simp add: inf_try_acquire_def hasCapacity_def)
  then have "nat (active_count (inf_release ?l)) = nat (active_count l)"
    by (rule infer.scope_exact [OF assms(1)])
  moreover have "0 \<le> active_count l" using assms(1) by (simp add: inf_ok_def)
  ultimately show ?thesis by (cases l) (simp add: inf_release_def)
qed

lemma flush_limiter:
  assumes "flush_tick d now l s = (r, l', s')" and "inf_ok l"
  shows "l' = (case r of FThrow x \<Rightarrow> l\<lparr>active_count := active_count l + 1\<rparr> | _ \<Rightarrow> l)"
  using assms by (cases rule: flush_tick_cases [of d now l s]) (auto simp: slot_scope)

lemma flush_sess_inv:
  assumes "sess_inv w s" and "flush_tick d now l s = (r, l', s')"
  shows "sess_inv w s'"
proof (cases rule: flush_tick_cases [of d now l s])
  case (run e res e' r)
  let ?t = "record_result (getBufferSize e) res e' (s\<lparr>s_engine := Some e'\<rparr>)"
  have "s' = ?t" using run assms(2) by simp
  moreover have "s_engine ?t = map_option (\<lambda>e. snd (transcribeSlidingWindow (whisper d) False e)) (s_engine s)"
    using run by simp
  ultimately show ?thesis
    using sess_inv_engine [OF assms(1), of s' "\<lambda>e. snd (transcribeSlidingWindow (whisper d) False e)"]
    by (simp add: engine_ok_infer)
qed (use assms in auto)

lemma word_new_audio:
  assumes "unat prev \<le> n" and "n < 2 ^ 64"
  shows "(of_nat MIN_NEW_SAMPLES \<le> (of_nat n - prev :: 64 word)) = (MIN_NEW_SAMPLES \<le> n - unat prev)"
    and "(prev < (of_nat n :: 64 word)) = (unat prev < n)"
proof -
  have n: "unat (of_nat n :: 64 word) = n" using assms(2) by (simp add: unat_of_nat take_bit_nat_eq_self)
  have "prev \<le> of_nat n" using assms(1) n by (simp add: word_le_nat_alt)
  then have "unat (of_nat n - prev) = n - unat prev" using n by (simp add: unat_sub)
  moreover have "unat (of_nat MIN_NEW_SAMPLES :: 64 word) = MIN_NEW_SAMPLES" by simp
  ultimately show "(of_nat MIN_NEW_SAMPLES \<le> (of_nat n - prev :: 64 word)) = (MIN_NEW_SAMPLES \<le> n - unat prev)"
    by (simp only: word_le_nat_alt)
  show "(prev < (of_nat n :: 64 word)) = (unat prev < n)" using n by (simp add: word_less_nat_alt)
qed

section \<open>Properties\<close>

definition windowed :: "engine \<Rightarrow> session" where
  "windowed e = (live_session e)\<lparr>flush_running := True\<rparr>"

lemma windowed_turn:
  "flush_tick (demo_deps\<lparr>whisper := decodes segs\<rparr>) 1 new_inference_limiter (windowed full_window) =
     (case transcribeSlidingWindow (decodes segs) False full_window of
        (Inl x, e') \<Rightarrow> (FThrow x, new_inference_limiter\<lparr>active_count := 1\<rparr>, (windowed full_window)\<lparr>s_engine := Some e'\<rparr>)
      | (Inr res, e') \<Rightarrow>
          (if committed_ok res \<or> partial_ok res
           then FSend (transcription_msg
             ((if committed_ok res then committed_text res else []) @ (if partial_ok res then partial_text res else [])) False)
           else FQuiet, new_inference_limiter, record_result MAX_WINDOW res e' ((windowed full_window)\<lparr>s_engine := Some e'\<rparr>)))"
proof -
  have "flush_wanted 1 MAX_WINDOW (windowed full_window)"
    by (simp add: flush_wanted_def windowed_def live_session_def new_session_def word_le_nat_alt)
  moreover have "getBufferSize full_window = MAX_WINDOW" by (simp add: getBufferSize_def full_window_def)
  moreover have "inf_try_acquire new_inference_limiter = (True, new_inference_limiter\<lparr>active_count := 1\<rparr>)"
    "inf_release (new_inference_limiter\<lparr>active_count := 1\<rparr>) = new_inference_limiter"
    by (simp_all add: inf_defs new_inference_limiter_def)
  ultimately show ?thesis
    by (simp add: flush_defs windowed_def live_session_def new_session_def record_result_text Let_def
        split: prod.split sum.split)
qed

lemma words_ab: "\<not> isHallucination ''a''" "\<not> isHallucination ''b''"
  by (simp_all add: isHallucination_def hallucination_words repetitive_def words.simps isspace_def bigram_count_def)

text \<open>C11: A turn of the flush thread loses no committed text and leaks no slot: the unfiltered transcript
  gains all committed text, the filtered one gains it unless it is a hallucination, the message
  is the filtered transcript followed by the partial text when that is no hallucination, and
  nothing is sent when both were filtered. The limiter is as before and the overflow flag is
  only left set while the buffer is above the mark.\<close>

theorem flush_turn_accounts_text:
  assumes "flush_tick d now l s = (r, l', s')" and "inf_ok l" and "s_engine s = Some e"
    and "transcribeSlidingWindow (whisper d) False e = (Inr res, e')" and "r \<noteq> FSkip"
  shows "l' = l \<and> s_engine s' = Some e'
    \<and> raw_transcription s' = raw_transcription s @ committed_text res
    \<and> full_transcription s' = full_transcription s @ (if isHallucination (committed_text res) then [] else committed_text res)
    \<and> r = (if committed_ok res \<or> partial_ok res
           then FSend (transcription_msg (full_transcription s' @ (if isHallucination (partial_text res) then [] else partial_text res)) False)
           else FQuiet)
    \<and> (buffer_overflowed s' \<longrightarrow> buffer_overflowed s \<and> HIGH_WATER_MARK \<le> getBufferSize e')"
proof (cases rule: flush_tick_cases [of d now l s])
  case (run e2 res2 e2' r2)
  have eq: "r = r2" "l' = l" "s' = record_result (getBufferSize e) res e' (s\<lparr>s_engine := Some e'\<rparr>)"
    "e2 = e" "res2 = res" "e2' = e'" using run(1-4) assms by (auto simp: slot_scope)
  then show ?thesis using run(5) record_result_text [of "getBufferSize e" res e' "s\<lparr>s_engine := Some e'\<rparr>"]
    by (auto simp: committed_ok_def partial_ok_def record_result_def Let_def)
qed (use assms in auto)

lemma hallucination_demo: "isHallucination ''a'' = False" "isHallucination ''b'' = False"
  using words_ab by simp_all

theorem flush_turn_accounts_text_witness:
  "raw_transcription (snd (snd (flush_tick (demo_deps\<lparr>whisper := decodes [(300, Some ''a''), (900, Some ''b'')]\<rparr>) 1
      new_inference_limiter (windowed full_window)))) = ''a''
   \<and> fst (flush_tick (demo_deps\<lparr>whisper := decodes [(300, Some ''a''), (900, Some ''b'')]\<rparr>) 1
      new_inference_limiter (windowed full_window)) = FSend (transcription_msg ''ab'' False)"
proof -
  let ?d = "demo_deps\<lparr>whisper := decodes [(300, Some ''a''), (900, Some ''b'')]\<rparr>"
  obtain r l' s' where t: "flush_tick ?d 1 new_inference_limiter (windowed full_window) = (r, l', s')"
    by (metis prod_cases3)
  have "r \<noteq> FSkip" using t windowed_turn [of "[(300, Some ''a''), (900, Some ''b'')]"] full_window_run
    by (auto split: if_splits)
  then show ?thesis
    using flush_turn_accounts_text [OF t, of full_window] full_window_run t hallucination_demo
    by (simp add: new_inference_limiter_def inf_ok_def windowed_def live_session_def new_session_def
        committed_ok_def)
qed

text \<open>C13: While the recorded size is at most the buffer size, a turn runs the decoder exactly when the
  session has at least 2 s of audio and either 250 ms of it are new or some is new and the
  client has been silent for more than 400 ms, and a slot is free.\<close>

theorem flush_turn_runs_iff:
  assumes "configured s" and "s_engine s = Some e" and "engine_ok e"
    and "unat (last_transcribed_size s) \<le> getBufferSize e"
  shows "fst (flush_tick d now l s) \<noteq> FSkip \<longleftrightarrow>
    32000 \<le> getBufferSize e \<and> hasCapacity l
    \<and> (4000 \<le> getBufferSize e - unat (last_transcribed_size s)
       \<or> (400 < now - last_audio_time s \<and> unat (last_transcribed_size s) < getBufferSize e))"
proof -
  let ?n = "getBufferSize e"
  have "?n < 2 ^ 64" using assms(3) by (simp add: engine_ok_def getBufferSize_def)
  note w = word_new_audio [OF assms(4) this]
  have wanted: "flush_wanted now ?n s \<longleftrightarrow> 4000 \<le> ?n - unat (last_transcribed_size s)
      \<or> (400 < now - last_audio_time s \<and> unat (last_transcribed_size s) < ?n)"
    unfolding flush_wanted_def Let_def w ..
  show ?thesis
  proof (cases "32000 \<le> ?n \<and> flush_wanted now ?n s \<and> hasCapacity l")
    case True
    then show ?thesis using assms(1,2) wanted
      by (simp add: flush_defs Let_def inf_try_acquire_def hasCapacity_def split: prod.split sum.split)
  next
    case False
    then have "fst (flush_tick d now l s) = FSkip" using assms(1,2)
      by (auto simp: flush_defs Let_def inf_try_acquire_def hasCapacity_def)
    with False wanted show ?thesis by blast
  qed
qed

lemma full_window_size: "getBufferSize full_window = 160000" "engine_ok full_window"
  by (simp_all add: getBufferSize_def full_window_def engine_ok_def engine0_def)

theorem flush_turn_runs_iff_witness:
  "fst (flush_tick demo_deps 1 new_inference_limiter (windowed full_window)) \<noteq> FSkip"
  using flush_turn_runs_iff [of "windowed full_window" full_window demo_deps 1 new_inference_limiter] full_window_size
  by (simp add: windowed_def live_session_def new_session_def hasCapacity_def new_inference_limiter_def)

text \<open>C34: When segments without text are committed, the turn records the size from before the commit;
  the subtraction in the next turn then wraps around, so the decoder runs again at once,
  although no audio has arrived and at whatever time.\<close>

theorem empty_commit_retriggers_decoder:
  assumes "flush_tick d now l s = (r, l', s')" and "r \<noteq> FSkip" and "inf_ok l" and "s_engine s = Some e"
    and "configured s" and "engine_ok e"
    and "transcribeSlidingWindow (whisper d) False e = (Inr res, e')" and "committed_text res = []"
    and "getBufferSize e' < getBufferSize e" and "32000 \<le> getBufferSize e'"
  shows "fst (flush_tick d now' l' s') \<noteq> FSkip"
proof (cases rule: flush_tick_cases [of d now l s])
  case (run e2 res2 e2' r2)
  have eq: "l' = l" "s' = record_result (getBufferSize e) res e' (s\<lparr>s_engine := Some e'\<rparr>)" "hasCapacity l"
    using run(1-4) assms by (auto simp: slot_scope)
  let ?n = "getBufferSize e" and ?m = "getBufferSize e'"
  have b: "?n \<le> MAX_BUFFER" using assms(6) by (simp add: engine_ok_def getBufferSize_def)
  have last: "last_transcribed_size s' = of_nat ?n" using assms(8) by (simp add: eq record_result_def Let_def)
  define k where "k = ?n - ?m"
  have n: "?n = ?m + k" "k \<le> MAX_BUFFER" "0 < k" using b assms(9) by (simp_all add: k_def)
  have "(of_nat ?m - of_nat ?n :: 64 word) = - of_nat k" by (simp add: n)
  moreover have "(of_nat MIN_NEW_SAMPLES :: 64 word) \<le> - of_nat k"
  proof -
    have "(of_nat (2 ^ 64 - k) :: 64 word) + of_nat k = of_nat (2 ^ 64)" using n by (simp flip: of_nat_add)
    also have "\<dots> = 0" by (subst word_of_nat_eq_0_iff) simp
    finally have "- of_nat k = (of_nat (2 ^ 64 - k) :: 64 word)" by (simp add: eq_neg_iff_add_eq_0 [symmetric])
    moreover have "unat (of_nat m :: 64 word) = m" if "m < 2 ^ 64" for m
      using that by (simp add: unat_of_nat take_bit_nat_eq_self)
    then have "unat (of_nat (2 ^ 64 - k) :: 64 word) = 2 ^ 64 - k" using n by (metis diff_less zero_less_numeral zero_less_power)
    ultimately show ?thesis using n by (simp only: word_le_nat_alt) simp
  qed
  ultimately have "flush_wanted now' ?m s'" by (simp add: flush_wanted_def last)
  then show ?thesis using assms(5,10) eq
    by (simp add: flush_defs Let_def inf_try_acquire_def hasCapacity_def split: prod.split sum.split)
qed (use assms in auto)

lemma silent_commit_run:
  "transcribeSlidingWindow (decodes [(300, None), (900, Some ''b'')]) False full_window
    = (Inr \<lparr>partial_text = ''b'', committed_text = []\<rparr>,
       full_window\<lparr>audio_buffer := replicate (MAX_WINDOW - 48000) (FNum 0)\<rparr>)"
proof -
  have "commit_decision False MAX_WINDOW [(300, None), (900, Some ''b'')] = (0, 300)"
    by (simp add: commit_decision_def numeral_2_eq_2)
  then show ?thesis
    using transcribe_eq [of full_window _ "decodes [(300, None), (900, Some ''b'')]" False 0 300, OF _ refl]
    by (simp add: full_window_def decodes_def engine0_def lock_language_def drop_committed_def segs_text_def)
qed

theorem empty_commit_retriggers_decoder_witness:
  "\<forall>now'. fst (flush_tick (demo_deps\<lparr>whisper := decodes [(300, None), (900, Some ''b'')]\<rparr>) now' new_inference_limiter
      (snd (snd (flush_tick (demo_deps\<lparr>whisper := decodes [(300, None), (900, Some ''b'')]\<rparr>) 1 new_inference_limiter
         (windowed full_window))))) \<noteq> FSkip"
proof -
  let ?d = "demo_deps\<lparr>whisper := decodes [(300, None), (900, Some ''b'')]\<rparr>"
  obtain r l' s' where t: "flush_tick ?d 1 new_inference_limiter (windowed full_window) = (r, l', s')"
    by (metis prod_cases3)
  have r: "r \<noteq> FSkip" "l' = new_inference_limiter"
    using t windowed_turn [of "[(300, None), (900, Some ''b'')]"] silent_commit_run
    by (auto split: if_splits)
  show ?thesis
    using empty_commit_retriggers_decoder [OF t r(1), of full_window] silent_commit_run full_window_size t r
    by (simp add: new_inference_limiter_def inf_ok_def windowed_def live_session_def new_session_def getBufferSize_def)
qed

end
