(* ===== verification/Session_Threads.thy ===== *)
theory Session_Threads
  imports Session_Flush
begin

text \<open>
  The two threads of a session, the receive loop (\<open>run\<close>) and the flush thread (\<open>flushLoop\<close>) of
  \<open>src/server/StreamingSession.h\<close>, step by step at the granularity of \<open>state_mutex_\<close>, from the
  WebSocket handshake to the destructor; the invariant of their interleaving, the growth of
  the transcripts, and that the threads of a session that ends are joined.
\<close>

section \<open>Program counters\<close>

text \<open>
  Where the receive loop is. \<open>Loading\<close> and \<open>Installing\<close> are a config message before and after
  the model is acquired, \<open>Greeting\<close> before \<open>sendReady\<close>; \<open>Storing\<close> is audio that has passed the
  guards and waits for the mutex, \<open>Warning\<close> the warning sent after it, \<open>Reporting\<close> the answer when
  memory ran out; \<open>Finishing\<close> is the final
  decode, which holds the mutex, \<open>Answering\<close> and \<open>Closing\<close> what follows it; \<open>Stopped\<close> is before the
  \<open>releaseModel\<close> of \<open>run\<close>, \<open>Lowering\<close> and \<open>Joining\<close> are in the destructor.
\<close>

datatype reader_pc =
    Handshake | Reading | Loading float32 | Installing float32 nat | Greeting
  | Storing "float32 list" | Warning | Reporting exn | Finishing | Answering | Closing
  | Stopped | Lowering | Joining | Joined

text \<open>
  Where the flush thread is: \<open>Inferring\<close> holds the mutex and a slot, \<open>Sending\<close> has unlocked the
  mutex, \<open>Relocking\<close> takes it once more before the turn ends.
\<close>

datatype flusher_pc = Not_Running | Sleeping | Inferring nat | Sending json | Relocking

text \<open>\<open>sys_read\<close> is the history: the frames of the client the receive loop has read so far.\<close>

record sess_sys =
  sys_w :: world
  sys_s :: session
  sys_read :: "frame list"
  reader :: reader_pc
  flusher :: flusher_pc
  crashed :: bool

text \<open>Who holds \<open>state_mutex_\<close> between two steps.\<close>

definition flusher_locks :: "sess_sys \<Rightarrow> bool" where
  "flusher_locks S \<longleftrightarrow> (case flusher S of Inferring n \<Rightarrow> True | _ \<Rightarrow> False)"

definition is_end :: "deps \<Rightarrow> frame \<Rightarrow> bool" where
  "is_end d f = (case f of
       Text m \<Rightarrow> (case parse_json d m of
           Inr msg \<Rightarrow> contains msg ''type'' \<and> get_string (field msg ''type'') = Inr ''end''
         | Inl _ \<Rightarrow> False)
     | Binary _ \<Rightarrow> False)"

definition readable :: "sess_sys \<Rightarrow> bool" where
  "readable S \<longleftrightarrow> reader S = Reading \<and> ws_open (sys_s S) \<and> ws_link (sys_s S)"

section \<open>Steps\<close>

text \<open>
  The steps of the receive loop come first, then those of the flush thread. The handshake, or
  the start of the flush thread after it, may throw. A turn of the
  flush loop that decides not to decode changes nothing and is no step. An exception in the
  flush thread ends the process, with its slot still taken.
\<close>

inductive sys_step :: "deps \<Rightarrow> sess_sys \<Rightarrow> sess_sys \<Rightarrow> bool" for d where
  accept: "\<lbrakk>\<not> crashed S; reader S = Handshake\<rbrakk> \<Longrightarrow>
    sys_step d S (S\<lparr>sys_s := (sys_s S)\<lparr>flush_running := True\<rparr>, reader := Reading, flusher := Sleeping\<rparr>)"
| no_thread: "\<lbrakk>\<not> crashed S; reader S = Handshake\<rbrakk> \<Longrightarrow>
    sys_step d S (S\<lparr>sys_s := (sys_s S)\<lparr>flush_running := True\<rparr>, reader := Stopped\<rparr>)"
| no_handshake: "\<lbrakk>\<not> crashed S; reader S = Handshake\<rbrakk> \<Longrightarrow> sys_step d S (S\<lparr>reader := Stopped\<rparr>)"
| reply: "\<lbrakk>\<not> crashed S; readable S; \<not> is_config d (Text m); \<not> (is_end d (Text m) \<and> configured (sys_s S));
      handle_frame d t0 t1 (Text m) (sys_w S) (sys_s S) = (x, w, s)\<rbrakk> \<Longrightarrow>
    sys_step d S (S\<lparr>sys_w := w, sys_s := s, sys_read := sys_read S @ [Text m],
      reader := (if x = None then Reading else Stopped)\<rparr>)"
| prepare: "\<lbrakk>\<not> crashed S; readable S; is_config d (Text m); parse_json d m = Inr msg;
      prepare_config d t0 t1 msg (sys_w S) (sys_s S) = (r, w, s)\<rbrakk> \<Longrightarrow>
    sys_step d S (S\<lparr>sys_w := w, sys_s := (case r of Inl (Some x) \<Rightarrow> config_failed d x s | _ \<Rightarrow> s),
      sys_read := sys_read S @ [Text m], reader := (case r of Inl _ \<Rightarrow> Reading | Inr vad \<Rightarrow> Loading vad)\<rparr>)"
| load: "\<lbrakk>\<not> crashed S; reader S = Loading vad;
      cache_acquire (load_model d) (cfg_model_path (s_config (sys_s S))) (w_cache (sys_w S)) = (r, c)\<rbrakk> \<Longrightarrow>
    sys_step d S (S\<lparr>sys_w := (sys_w S)\<lparr>w_cache := c\<rparr>,
      sys_s := (case r of Inl x \<Rightarrow> config_failed d x (sys_s S) | Inr _ \<Rightarrow> sys_s S),
      reader := (case r of Inl _ \<Rightarrow> Reading | Inr cx \<Rightarrow> Installing vad cx)\<rparr>)"
| install: "\<lbrakk>\<not> crashed S; reader S = Installing vad cx; \<not> flusher_locks S;
      install_engine d now vad cx (sys_s S) = (x, s)\<rbrakk> \<Longrightarrow>
    sys_step d S (S\<lparr>sys_s := (case x of None \<Rightarrow> s | Some e \<Rightarrow> config_failed d e s),
      reader := (if x = None then Greeting else Reading)\<rparr>)"
| greet: "\<lbrakk>\<not> crashed S; reader S = Greeting\<rbrakk> \<Longrightarrow>
    sys_step d S (S\<lparr>sys_s := sendReady d (sys_s S), reader := Reading\<rparr>)"
| audio: "\<lbrakk>\<not> crashed S; readable S; binary_guard d now data (sys_s S) = (r, s)\<rbrakk> \<Longrightarrow>
    sys_step d S (S\<lparr>sys_s := s, sys_read := sys_read S @ [Binary data], reader := (case r of None \<Rightarrow> Reading
      | Some pcm \<Rightarrow> if audio_fault d = Frame_Fault then Reporting Bad_Alloc else Storing pcm)\<rparr>)"
| store: "\<lbrakk>\<not> crashed S; reader S = Storing pcm; \<not> flusher_locks S; store_audio d now pcm (sys_s S) = (r, s)\<rbrakk> \<Longrightarrow>
    sys_step d S (S\<lparr>sys_s := s, reader := (case r of Inl x \<Rightarrow> Reporting x
      | Inr should_warn \<Rightarrow> if should_warn then Warning else Reading)\<rparr>)"
| report: "\<lbrakk>\<not> crashed S; reader S = Reporting x\<rbrakk> \<Longrightarrow>
    sys_step d S (S\<lparr>sys_s := audio_failed d x (sys_s S), reader := Reading\<rparr>)"
| warn: "\<lbrakk>\<not> crashed S; reader S = Warning\<rbrakk> \<Longrightarrow>
    sys_step d S (S\<lparr>sys_s := sendMessage d warning_msg (sys_s S), reader := Reading\<rparr>)"
| finish: "\<lbrakk>\<not> crashed S; readable S; is_end d f; configured (sys_s S); \<not> flusher_locks S\<rbrakk> \<Longrightarrow>
    sys_step d S (S\<lparr>sys_read := sys_read S @ [f], reader := Finishing\<rparr>)"
| collect: "\<lbrakk>\<not> crashed S; reader S = Finishing; end_collect d (sys_s S) = (x, s)\<rbrakk> \<Longrightarrow>
    sys_step d S (S\<lparr>sys_s := s, reader := (if x = None then Answering else Stopped)\<rparr>)"
| answer: "\<lbrakk>\<not> crashed S; reader S = Answering\<rbrakk> \<Longrightarrow>
    sys_step d S (S\<lparr>sys_s := end_send d (sys_s S), reader := Closing\<rparr>)"
| close: "\<lbrakk>\<not> crashed S; reader S = Closing\<rbrakk> \<Longrightarrow>
    sys_step d S (S\<lparr>sys_s := snd (close_ws Normal_Closure (sys_s S)), reader := Reading\<rparr>)"
| read_fails: "\<lbrakk>\<not> crashed S; reader S = Reading\<rbrakk> \<Longrightarrow> sys_step d S (S\<lparr>reader := Stopped\<rparr>)"
| give_back: "\<lbrakk>\<not> crashed S; reader S = Stopped; \<not> flusher_locks S; releaseModel now (sys_w S) (sys_s S) = (w, s)\<rbrakk> \<Longrightarrow>
    sys_step d S (S\<lparr>sys_w := w, sys_s := s, reader := Lowering\<rparr>)"
| lower: "\<lbrakk>\<not> crashed S; reader S = Lowering\<rbrakk> \<Longrightarrow>
    sys_step d S (S\<lparr>sys_s := (sys_s S)\<lparr>flush_running := False\<rparr>, reader := Joining\<rparr>)"
| join: "\<lbrakk>\<not> crashed S; reader S = Joining; flusher S = Not_Running\<rbrakk> \<Longrightarrow> sys_step d S (S\<lparr>reader := Joined\<rparr>)"
| start: "\<lbrakk>\<not> crashed S; flusher S = Sleeping; flush_running (sys_s S); reader S \<noteq> Finishing;
      flush_start now (w_inf (sys_w S)) (sys_s S) = (Some n, l)\<rbrakk> \<Longrightarrow>
    sys_step d S (S\<lparr>sys_w := (sys_w S)\<lparr>w_inf := l\<rparr>, flusher := Inferring n\<rparr>)"
| infer: "\<lbrakk>\<not> crashed S; flusher S = Inferring n; flush_infer d n (w_inf (sys_w S)) (sys_s S) = (r, l, s)\<rbrakk> \<Longrightarrow>
    sys_step d S (S\<lparr>sys_w := (sys_w S)\<lparr>w_inf := l\<rparr>, sys_s := s,
      flusher := (case r of FThrow x \<Rightarrow> Inferring n | FSend m \<Rightarrow> Sending m | _ \<Rightarrow> Sleeping),
      crashed := (\<exists>x. r = FThrow x)\<rparr>)"
| deliver: "\<lbrakk>\<not> crashed S; flusher S = Sending m\<rbrakk> \<Longrightarrow>
    sys_step d S (S\<lparr>sys_s := sendMessage d m (sys_s S), flusher := Relocking\<rparr>)"
| relock: "\<lbrakk>\<not> crashed S; flusher S = Relocking; reader S \<noteq> Finishing\<rbrakk> \<Longrightarrow> sys_step d S (S\<lparr>flusher := Sleeping\<rparr>)"
| stop: "\<lbrakk>\<not> crashed S; flusher S = Sleeping; \<not> flush_running (sys_s S)\<rbrakk> \<Longrightarrow> sys_step d S (S\<lparr>flusher := Not_Running\<rparr>)"
| link_lost: "sys_step d S (S\<lparr>sys_s := (sys_s S)\<lparr>ws_link := False\<rparr>\<rparr>)"

abbreviation sys_steps :: "deps \<Rightarrow> sess_sys \<Rightarrow> sess_sys \<Rightarrow> bool" where
  "sys_steps d \<equiv> (sys_step d)\<^sup>*\<^sup>*"

definition start_sys :: "world \<Rightarrow> session_config \<Rightarrow> string \<Rightarrow> int \<Rightarrow> sess_sys" where
  "start_sys w cfg sid now = \<lparr>sys_w = w, sys_s = new_session cfg sid now, sys_read = [],
     reader = Handshake, flusher = Not_Running, crashed = False\<rparr>"

inductive_simps crashed_step: "sys_step d (S\<lparr>crashed := True\<rparr>) S'"

section \<open>The invariant of the interleaving\<close>

text \<open>
  What a session holds of the shared resources: references to the model (one that a config
  message has just acquired is not in \<open>model_acquired\<close> yet) and slots for inferences.
\<close>

definition refs_held :: "sess_sys \<Rightarrow> nat" where
  "refs_held S = of_bool (model_acquired (sys_s S)) + (case reader S of Installing _ _ \<Rightarrow> 1 | _ \<Rightarrow> 0)"

definition slots_held :: "sess_sys \<Rightarrow> nat" where
  "slots_held S = of_bool (flusher_locks S)"

text \<open>The reader after \<open>releaseModel\<close>.\<close>

definition wound_up :: "reader_pc \<Rightarrow> bool" where
  "wound_up p \<longleftrightarrow> p \<in> {Lowering, Joining, Joined}"

lemma wound_up_simps [simp]:
  "wound_up Lowering" "wound_up Joining" "wound_up Joined"
  "\<not> wound_up Handshake" "\<not> wound_up Reading" "\<not> wound_up (Loading v)" "\<not> wound_up (Installing v cx)"
  "\<not> wound_up Greeting" "\<not> wound_up (Storing p)" "\<not> wound_up Warning" "\<not> wound_up (Reporting x)" "\<not> wound_up Finishing"
  "\<not> wound_up Answering" "\<not> wound_up Closing" "\<not> wound_up Stopped"
  by (simp_all add: wound_up_def)

text \<open>
  Until \<open>releaseModel\<close> the invariant of the session holds, afterwards there is no engine and no
  reference; a model acquired but not yet installed is the loaded one; and the mutex is held
  by one thread, by the flush thread only with an engine, and not before the handshake.
\<close>

definition sys_inv :: "sess_sys \<Rightarrow> bool" where
  "sys_inv S \<longleftrightarrow>
     (if wound_up (reader S) then s_engine (sys_s S) = None \<and> \<not> model_acquired (sys_s S)
      else sess_inv (sys_w S) (sys_s S))
     \<and> (\<forall>v cx. reader S = Installing v cx \<longrightarrow> ctx (w_cache (sys_w S)) = Some cx \<and> 0 < ref_count (w_cache (sys_w S)))
     \<and> (flusher_locks S \<longrightarrow> s_engine (sys_s S) \<noteq> None \<and> reader S \<noteq> Finishing \<and> \<not> wound_up (reader S))
     \<and> (reader S = Handshake \<longrightarrow> flusher S = Not_Running)"

lemma sess_inv_inf [simp]: "sess_inv (w\<lparr>w_inf := l\<rparr>) s = sess_inv w s"
  by (simp add: sess_inv_def)

lemma sess_inv_link [simp]: "sess_inv w (s\<lparr>ws_link := b\<rparr>) = sess_inv w s"
  by (simp add: sess_inv_def)

lemma sess_inv_flag [simp]: "sess_inv w (s\<lparr>flush_running := b\<rparr>) = sess_inv w s"
  by (simp add: sess_inv_def)

lemma sess_inv_send [simp]:
  "sess_inv w (sendMessage d m s) = sess_inv w s" "sess_inv w (sendReady d s) = sess_inv w s"
  "sess_inv w (config_failed d x s) = sess_inv w s" "sess_inv w (end_send d s) = sess_inv w s"
  by (simp_all add: sess_inv_def config_failed_def end_send_def)

lemma sess_inv_close [simp]: "sess_inv w (snd (close_ws c s)) = sess_inv w s"
  by (simp add: sess_inv_def)

lemma config_failed_frame [simp]:
  "s_engine (config_failed d x s) = s_engine s" "configured (config_failed d x s) = configured s"
  "model_acquired (config_failed d x s) = model_acquired s" "s_config (config_failed d x s) = s_config s"
  by (simp_all add: config_failed_def)

lemma end_send_frame [simp]:
  "s_engine (end_send d s) = s_engine s" "configured (end_send d s) = configured s"
  "model_acquired (end_send d s) = model_acquired s" "s_config (end_send d s) = s_config s"
  by (simp_all add: end_send_def)

lemma end_collect_frame:
  "configured (snd (end_collect d s)) = configured s"
  "model_acquired (snd (end_collect d s)) = model_acquired s"
  "s_config (snd (end_collect d s)) = s_config s"
  "s_engine (snd (end_collect d s)) = map_option (\<lambda>e. snd (transcribeSlidingWindow (whisper d) True e)) (s_engine s)"
  by (simp_all add: end_collect_def split: option.split prod.split sum.split)

lemma end_collect_ws:
  "ws_open (snd (end_collect d s)) = ws_open s" "ws_link (snd (end_collect d s)) = ws_link s"
  "ws_sent (snd (end_collect d s)) = ws_sent s"
  by (simp_all add: end_collect_def split: option.split prod.split sum.split)

lemma end_collect_inv: "sess_inv w s \<Longrightarrow> sess_inv w (snd (end_collect d s))"
  by (rule sess_inv_engine [OF _ end_collect_frame(3,1,2,4)]) (simp_all add: engine_ok_infer)

lemma audio_failed_inv [simp]: "sess_inv w (audio_failed d x s) = sess_inv w s"
  by (simp add: sess_inv_def)

lemma store_audio_inv:
  assumes "sess_inv w s" and "store_audio d now pcm s = (r, s')"
  shows "sess_inv w s'"
proof (cases "configured s")
  case True
  then show ?thesis
    using sess_inv_engine [OF assms(1), of s' "\<lambda>e. snd (push_chunk (audio_fault d) pcm e)"] store_audio_frame [OF assms(2)]
    by (simp add: push_chunk_ok)
next
  case False
  then show ?thesis using sess_inv_same [OF assms(1)] store_audio_frame [OF assms(2)] by simp
qed

lemma binary_guard_frame:
  assumes "binary_guard d now data s = (r, s')"
  shows "configured s' = configured s" "model_acquired s' = model_acquired s" "s_config s' = s_config s"
    "s_engine s' = s_engine s" "full_transcription s' = full_transcription s" "raw_transcription s' = raw_transcription s"
    "r \<noteq> None \<Longrightarrow> configured s"
  using assms
  by (auto simp: binary_guard_def not_configured_def sendError_def sendMessage_def close_ws_ec_def close_ws_def Let_def
      split: if_splits)

text \<open>Releasing: the engine goes, with the reference when there is one.\<close>

lemma releaseModel_gone:
  assumes "sess_inv w s" and "releaseModel now w s = (w', s')"
  shows "s_engine s' = None" "\<not> model_acquired s'" "s_config s' = s_config s"
  using assms by (cases "s_engine s"; auto simp: releaseModel_def sess_inv_def split: if_splits)+

lemma flush_start_keeps: "flush_start now l s = (Some n, l') \<Longrightarrow>
    hasCapacity l \<and> l' = l\<lparr>active_count := active_count l + 1\<rparr> \<and> configured s
    \<and> (\<exists>e. s_engine s = Some e \<and> n = getBufferSize e \<and> MIN_BUFFER_SAMPLES \<le> n)"
  by (cases rule: flush_start_cases [of now l s]) auto

lemma flush_infer_frame:
  assumes "flush_infer d n l s = (r, l', s')" and "s_engine s = Some e"
  shows "configured s' = configured s" "model_acquired s' = model_acquired s" "s_config s' = s_config s"
    "ws_sent s' = ws_sent s" "ws_open s' = ws_open s" "ws_link s' = ws_link s" "flush_running s' = flush_running s"
    "s_engine s' = Some (snd (transcribeSlidingWindow (whisper d) False e))"
    "l' = (if \<exists>x. r = FThrow x then l else inf_release l)" "r \<noteq> FSkip"
proof -
  have fr: "flush_running (record_result k res e' t) = flush_running t" for k res e' t
    by (simp add: record_result_def Let_def)
  from assms(2) have "configured s' = configured s \<and> model_acquired s' = model_acquired s \<and> s_config s' = s_config s
    \<and> ws_sent s' = ws_sent s \<and> ws_open s' = ws_open s \<and> ws_link s' = ws_link s \<and> flush_running s' = flush_running s
    \<and> s_engine s' = Some (snd (transcribeSlidingWindow (whisper d) False e))
    \<and> l' = (if \<exists>x. r = FThrow x then l else inf_release l) \<and> r \<noteq> FSkip"
    by (cases rule: flush_infer_cases [of s e d n l]) (use assms in \<open>auto simp: fr\<close>)
  then show "configured s' = configured s" "model_acquired s' = model_acquired s" "s_config s' = s_config s"
    "ws_sent s' = ws_sent s" "ws_open s' = ws_open s" "ws_link s' = ws_link s" "flush_running s' = flush_running s"
    "s_engine s' = Some (snd (transcribeSlidingWindow (whisper d) False e))"
    "l' = (if \<exists>x. r = FThrow x then l else inf_release l)" "r \<noteq> FSkip" by simp_all
qed

lemma flush_infer_inv:
  assumes "sess_inv w s" and "flush_infer d n l s = (r, l', s')" and "s_engine s = Some e"
  shows "sess_inv w s'"
  using sess_inv_engine [OF assms(1), of s' "\<lambda>e. snd (transcribeSlidingWindow (whisper d) False e)"]
    flush_infer_frame [OF assms(2,3)] assms(3) by (simp add: engine_ok_infer)

text \<open>An answered text frame leaves the shared state and the engine alone.\<close>

lemma reply_frame:
  assumes "handle_frame d t0 t1 (Text m) w s = (x, w', s')" and "\<not> is_config d (Text m)"
    and "\<not> (is_end d (Text m) \<and> configured s)"
  shows "w' = w" "s_engine s' = s_engine s" "configured s' = configured s" "model_acquired s' = model_acquired s"
    "s_config s' = s_config s" "full_transcription s' = full_transcription s" "raw_transcription s' = raw_transcription s"
    "ws_open s' = ws_open s" "ws_link s' = ws_link s"
    "s' = s \<or> (\<exists>m c. s' = sendError d m c s)"
  using assms
  by (auto simp: is_config_def is_end_def handle_frame_def handleJsonMessage_def not_configured_def sendError_def Let_def
      split: sum.splits option.splits if_splits)

text \<open>A step of the reader from and to a program counter without a claim of its own.\<close>

lemma sys_inv_reader:
  assumes "sys_inv S" and "\<not> wound_up (reader S)" and "\<not> wound_up (reader S')"
    and "\<forall>v cx. reader S' \<noteq> Installing v cx" and "reader S' \<noteq> Handshake" and "flusher S' = flusher S"
    and "flusher_locks S \<longrightarrow> reader S' \<noteq> Finishing \<and> s_engine (sys_s S') \<noteq> None"
    and "sess_inv (sys_w S') (sys_s S')"
  shows "sys_inv S'"
  using assms by (auto simp: sys_inv_def flusher_locks_def)

lemma sys_inv_sess: "sys_inv S \<Longrightarrow> \<not> wound_up (reader S) \<Longrightarrow> sess_inv (sys_w S) (sys_s S)"
  by (simp add: sys_inv_def)

lemma sys_step_inv: "sys_step d S S' \<Longrightarrow> sys_inv S \<Longrightarrow> sys_inv S'"
proof (induction rule: sys_step.induct)
  case (reply S m t0 t1 x w s)
  note f = reply_frame [OF reply(5,3,4)]
  have "sess_inv (sys_w S) (sys_s S)" using reply by (intro sys_inv_sess) (auto simp: readable_def)
  then have "sess_inv w s" using f by (simp add: sess_inv_def)
  then show ?case using reply f by (auto simp: sys_inv_def readable_def flusher_locks_def)
next
  case (prepare S m msg t0 t1 r w s)
  note f = prepare_frame [OF prepare(5)]
  have "sess_inv (sys_w S) (sys_s S)" using prepare by (intro sys_inv_sess) (auto simp: readable_def)
  then have "sess_inv w s" using prepare_inv prepare(5) by blast
  then have "sess_inv w (case r of Inl (Some x) \<Rightarrow> config_failed d x s | _ \<Rightarrow> s)"
    by (simp split: sum.split option.split)
  moreover have "s_engine (case r of Inl (Some x) \<Rightarrow> config_failed d x s | _ \<Rightarrow> s) = s_engine (sys_s S)"
    using f(6) by (simp split: sum.split option.split)
  ultimately show ?case using prepare(2,6)
    by (auto simp: sys_inv_def readable_def flusher_locks_def split: sum.splits)
next
  case (load S vad r c)
  have i: "sess_inv (sys_w S) (sys_s S)" using load by (intro sys_inv_sess) auto
  then have ok: "cache_ok (cfg_model_path (s_config (sys_s S))) (w_cache (sys_w S))" by (simp add: sess_inv_def)
  have w: "sess_inv ((sys_w S)\<lparr>w_cache := c\<rparr>) (sys_s S)" by (rule acquire_sess_inv [OF i load(3)])
  from ok load(3) show ?case
  proof (cases rule: acquire_cases)
    case (failed x)
    then show ?thesis using load w by (auto simp: sys_inv_def flusher_locks_def)
  next
    case (got cx)
    then have "0 < ref_count c" using ok by (simp add: cache_ok_def)
    then show ?thesis using load w got by (auto simp: sys_inv_def flusher_locks_def)
  qed
next
  case (install S vad cx now x s)
  have "sess_inv (sys_w S) (sys_s S)" using install by (intro sys_inv_sess) auto
  then have "sess_inv (sys_w S) s"
    using install_inv [of "sys_w S" "sys_s S" cx d now vad x s] install by (auto simp: sys_inv_def)
  then show ?case using install by (auto simp: sys_inv_def flusher_locks_def split: option.split)
next
  case (audio S now data r s)
  note f = binary_guard_frame [OF audio(3)]
  have "sess_inv (sys_w S) (sys_s S)" using audio by (intro sys_inv_sess) (auto simp: readable_def)
  then have "sess_inv (sys_w S) s" using f by (simp add: sess_inv_def)
  then show ?case using audio f by (auto simp: sys_inv_def readable_def flusher_locks_def split: option.split)
next
  case (store S pcm now r s)
  have "sess_inv (sys_w S) (sys_s S)" using store by (intro sys_inv_sess) auto
  from store_audio_inv [OF this store(4)] show ?case using store store_audio_frame(4) [OF store(4)]
    by (intro sys_inv_reader [OF store(5)]) (auto split: sum.split)
next
  case (collect S x s)
  have "sess_inv (sys_w S) (sys_s S)" using collect by (intro sys_inv_sess) auto
  from end_collect_inv [OF this, of d] show ?case using collect
    by (intro sys_inv_reader [OF collect(4)]) (auto simp: sys_inv_def)
next
  case (give_back S now w s)
  have "sess_inv (sys_w S) (sys_s S)" using give_back by (intro sys_inv_sess) auto
  from releaseModel_gone [OF this give_back(4)] show ?case using give_back
    by (simp add: sys_inv_def flusher_locks_def)
next
  case (start S now n l)
  then show ?case using flush_start_keeps [OF start(5)] by (auto simp: sys_inv_def flusher_locks_def)
next
  case (infer S n r l s)
  then obtain e where e: "s_engine (sys_s S) = Some e" and nw: "\<not> wound_up (reader S)"
    by (auto simp: sys_inv_def flusher_locks_def)
  have "sess_inv (sys_w S) (sys_s S)" using infer nw by (intro sys_inv_sess) auto
  from flush_infer_inv [OF this infer(3) e] show ?case using infer nw flush_infer_frame(8) [OF infer(3) e]
    by (auto simp: sys_inv_def flusher_locks_def split: flush_result.split)
qed (auto simp: sys_inv_def readable_def flusher_locks_def)

interpretation sess_sys: step_invariant "sys_step d" sys_inv
  by unfold_locales (rule sys_step_inv)

lemmas sys_steps_inv = sess_sys.steps_keep

lemma start_sys_inv: "cache_ok (cfg_model_path cfg) (w_cache w) \<Longrightarrow> sys_inv (start_sys w cfg sid now)"
  by (simp add: sys_inv_def start_sys_def sess_inv_def new_session_def flusher_locks_def)

lemma crashed_steps:
  assumes "sys_steps d S S'" and "crashed S"
  shows "crashed S' \<and> ws_sent (sys_s S') = ws_sent (sys_s S)"
  using assms
proof (induction rule: rtranclp_induct)
  case (step T U)
  then have "T\<lparr>crashed := True\<rparr> = T" by (cases T) simp
  then have "sys_step d (T\<lparr>crashed := True\<rparr>) U" using step.hyps(2) by simp
  then show ?case using step by (auto simp: crashed_step)
qed simp

section \<open>The text only grows\<close>

definition text_le :: "session \<Rightarrow> session \<Rightarrow> bool" where
  "text_le s s' \<longleftrightarrow> prefix (raw_transcription s) (raw_transcription s')
     \<and> prefix (full_transcription s) (full_transcription s')"

lemma text_le_same:
  "raw_transcription s' = raw_transcription s \<Longrightarrow> full_transcription s' = full_transcription s \<Longrightarrow> text_le s s'"
  by (simp add: text_le_def)

lemma text_le_collect: "text_le s (snd (end_collect d s))"
  by (auto simp: text_le_def end_collect_def raw_fallback_def split: option.split prod.split sum.split)

lemma text_le_infer:
  assumes "flush_infer d n l s = (r, l', s')"
  shows "text_le s s'"
proof (cases "s_engine s")
  case None
  then show ?thesis using assms by (simp add: flush_infer_def text_le_def)
next
  case (Some e)
  then show ?thesis
    by (cases rule: flush_infer_cases [of s e d n l]) (use assms in \<open>auto simp: text_le_def record_result_text\<close>)
qed

lemma install_text:
  assumes "install_engine d now vad cx s = (x, s')"
  shows "text_le s s' \<or> raw_transcription s' = [] \<and> full_transcription s' = []"
  using assms by (auto simp: install_engine_def text_le_def Let_def split: sum.splits)

lemma failed_text [simp]:
  "raw_transcription (config_failed d x s) = raw_transcription s"
  "full_transcription (config_failed d x s) = full_transcription s"
  by (simp_all add: config_failed_def sendError_def)

lemma audio_failed_text [simp]:
  "raw_transcription (audio_failed d x s) = raw_transcription s"
  "full_transcription (audio_failed d x s) = full_transcription s"
  by (simp_all add: audio_failed_def sendError_def)

lemma sys_step_text:
  assumes "sys_step d S S'"
  shows "text_le (sys_s S) (sys_s S') \<or> (\<exists>v cx. reader S = Installing v cx)
    \<and> raw_transcription (sys_s S') = [] \<and> full_transcription (sys_s S') = []"
  using assms
proof (induction rule: sys_step.induct)
  case (reply S m t0 t1 x w s)
  then show ?case using reply_frame(6,7) [OF reply(5,3,4)] by (simp add: text_le_def)
next
  case (prepare S m msg t0 t1 r w s)
  then show ?case using prepare_frame(7,8) [OF prepare(5)] by (simp add: text_le_def split: sum.split option.split)
next
  case (load S vad r c)
  then show ?case by (simp add: text_le_def split: sum.split)
next
  case (install S vad cx now x s)
  then show ?case using install_text [OF install(4)] by (auto simp: text_le_def split: option.split)
next
  case (audio S now data r s)
  then show ?case using binary_guard_frame(5,6) [OF audio(3)] by (simp add: text_le_def)
next
  case (store S pcm now r s)
  then show ?case using store_audio_frame(8,9) [OF store(4)] by (simp add: text_le_def)
next
  case (collect S x s)
  then show ?case using text_le_collect [of "sys_s S" d] by simp
next
  case (infer S n r l s)
  then show ?case using text_le_infer by simp
qed (auto simp: text_le_def end_send_def close_ws_def releaseModel_def sendReady_def split: if_splits)

section \<open>The threads end\<close>

text \<open>A step of one of the two threads, as opposed to the connection being lost.\<close>

definition own_step :: "deps \<Rightarrow> sess_sys \<Rightarrow> sess_sys \<Rightarrow> bool" where
  "own_step d S S' \<longleftrightarrow> sys_step d S S' \<and> (reader S', flusher S', crashed S') \<noteq> (reader S, flusher S, crashed S)"

fun reader_todo :: "reader_pc \<Rightarrow> nat" where
  "reader_todo Lowering = 2"
| "reader_todo Joining = 1"
| "reader_todo _ = 0"

fun flusher_todo :: "flusher_pc \<Rightarrow> nat" where
  "flusher_todo (Sending m) = 3"
| "flusher_todo Relocking = 2"
| "flusher_todo Sleeping = 1"
| "flusher_todo _ = 0"

definition todo :: "sess_sys \<Rightarrow> nat" where
  "todo S = reader_todo (reader S) + flusher_todo (flusher S)"

text \<open>The destructor only starts to join after the flag is lowered.\<close>

definition flag_inv :: "sess_sys \<Rightarrow> bool" where
  "flag_inv S \<longleftrightarrow> (reader S \<in> {Joining, Joined} \<longrightarrow> \<not> flush_running (sys_s S))
     \<and> (reader S = Joined \<longrightarrow> flusher S = Not_Running)"

lemma sys_step_winds_up:
  assumes "sys_step d S S'" and "sys_inv S" and "flag_inv S" and "wound_up (reader S)"
  shows "wound_up (reader S') \<and> flag_inv S' \<and> crashed S' = crashed S
    \<and> (todo S' < todo S \<or> (reader S' = reader S \<and> flusher S' = flusher S))"
  using assms
proof (induction rule: sys_step.induct)
  case (start S now n l)
  then show ?case using flush_start_keeps [OF start(5)] by (auto simp: sys_inv_def)
next
  case (infer S n r l s)
  then show ?case by (simp add: sys_inv_def flusher_locks_def)
qed (auto simp: flag_inv_def todo_def readable_def sendMessage_def wound_up_def)

lemma sys_step_flag: "sys_step d S S' \<Longrightarrow> sys_inv S \<Longrightarrow> flag_inv S \<Longrightarrow> flag_inv S'"
proof (cases "wound_up (reader S)")
  case True
  assume "sys_step d S S'" "sys_inv S" "flag_inv S"
  then show ?thesis using sys_step_winds_up True by blast
next
  case False
  assume "sys_step d S S'" "sys_inv S" "flag_inv S"
  then show ?thesis using False
    by (induction rule: sys_step.induct) (auto simp: flag_inv_def split: sum.split option.split)
qed

lemma sys_steps_flag:
  assumes "sys_steps d S S'" and "sys_inv S" and "flag_inv S"
  shows "flag_inv S'"
proof -
  have "sys_inv S' \<and> flag_inv S'" using assms
    by (induction rule: rtranclp_induct) (auto intro: sys_step_inv sys_step_flag)
  then show ?thesis ..
qed

lemma own_stepI:
  "sys_step d S S' \<Longrightarrow> reader S' \<noteq> reader S \<or> flusher S' \<noteq> flusher S \<or> crashed S' \<noteq> crashed S
    \<Longrightarrow> \<exists>S'. own_step d S S'"
  by (auto simp: own_step_def)

text \<open>No state is stuck before the threads are joined.\<close>

lemma own_step_locked:
  assumes "sys_inv S" and "\<not> crashed S" and "flusher_locks S"
  shows "\<exists>S'. own_step d S S'"
proof -
  obtain n e where n: "flusher S = Inferring n" and e: "s_engine (sys_s S) = Some e"
    using assms(1,3) by (auto simp: flusher_locks_def sys_inv_def split: flusher_pc.splits)
  obtain r l s where i: "flush_infer d n (w_inf (sys_w S)) (sys_s S) = (r, l, s)" by (metis prod_cases3)
  note st = infer [OF assms(2) n i]
  show ?thesis
  proof (cases "\<exists>x. r = FThrow x")
    case True
    then show ?thesis using assms(2) by (intro own_stepI [OF st]) simp
  next
    case False
    then show ?thesis using n by (intro own_stepI [OF st]) (simp split: flush_result.split)
  qed
qed

lemma own_step_exists:
  assumes "sys_inv S" and "flag_inv S" and "\<not> crashed S" and "reader S \<noteq> Joined"
  shows "\<exists>S'. own_step d S S'"
proof (cases "flusher_locks S")
  case True
  then show ?thesis by (rule own_step_locked [OF assms(1,3)])
next
  case False
  note c = assms(3)
  show ?thesis
  proof (cases "reader S")
    case Handshake
    show ?thesis by (rule own_stepI [OF accept [OF c Handshake]]) (simp add: Handshake)
  next
    case Reading
    show ?thesis by (rule own_stepI [OF read_fails [OF c Reading]]) (simp add: Reading)
  next
    case (Loading v)
    obtain r k where st: "cache_acquire (load_model d) (cfg_model_path (s_config (sys_s S))) (w_cache (sys_w S)) = (r, k)"
      by fastforce
    show ?thesis by (rule own_stepI [OF load [OF c Loading st]]) (simp add: Loading split: sum.split)
  next
    case (Installing v cx)
    obtain x s where st: "install_engine d 0 v cx (sys_s S) = (x, s)" by fastforce
    show ?thesis by (rule own_stepI [OF install [OF c Installing False st]]) (simp add: Installing)
  next
    case Greeting
    show ?thesis by (rule own_stepI [OF greet [OF c Greeting]]) (simp add: Greeting)
  next
    case (Storing pcm)
    obtain r s where st: "store_audio d 0 pcm (sys_s S) = (r, s)" by fastforce
    show ?thesis by (rule own_stepI [OF store [OF c Storing False st]]) (simp add: Storing split: sum.split)
  next
    case (Reporting x)
    show ?thesis by (rule own_stepI [OF report [OF c Reporting]]) (simp add: Reporting)
  next
    case Warning
    show ?thesis by (rule own_stepI [OF warn [OF c Warning]]) (simp add: Warning)
  next
    case Finishing
    obtain x s where st: "end_collect d (sys_s S) = (x, s)" by fastforce
    show ?thesis by (rule own_stepI [OF collect [OF c Finishing st]]) (simp add: Finishing)
  next
    case Answering
    show ?thesis by (rule own_stepI [OF answer [OF c Answering]]) (simp add: Answering)
  next
    case Closing
    show ?thesis by (rule own_stepI [OF close [OF c Closing]]) (simp add: Closing)
  next
    case Stopped
    obtain w s where st: "releaseModel 0 (sys_w S) (sys_s S) = (w, s)" by fastforce
    show ?thesis by (rule own_stepI [OF give_back [OF c Stopped False st]]) (simp add: Stopped)
  next
    case Lowering
    show ?thesis by (rule own_stepI [OF lower [OF c Lowering]]) (simp add: Lowering)
  next
    case Joining
    show ?thesis
    proof (cases "flusher S")
      case Not_Running
      show ?thesis by (rule own_stepI [OF join [OF c Joining Not_Running]]) (simp add: Joining)
    next
      case Sleeping
      have st: "\<not> flush_running (sys_s S)" using assms(2) Joining by (simp add: flag_inv_def)
      show ?thesis by (rule own_stepI [OF stop [OF c Sleeping st]]) (simp add: Sleeping)
    next
      case (Sending m)
      show ?thesis by (rule own_stepI [OF deliver [OF c Sending]]) (simp add: Sending)
    next
      case Relocking
      show ?thesis by (rule own_stepI [OF relock [OF c Relocking]]) (simp_all add: Joining Relocking)
    qed (use False in \<open>simp add: flusher_locks_def\<close>)
  qed (use assms(4) in simp)
qed

lemma own_steps_bounded:
  assumes "(own_step d ^^ k) S S'" and "sys_inv S" and "flag_inv S" and "wound_up (reader S)"
  shows "todo S' + k \<le> todo S \<and> sys_inv S' \<and> flag_inv S' \<and> wound_up (reader S') \<and> crashed S' = crashed S"
  using assms(1)
proof (induction k arbitrary: S')
  case 0
  then show ?case using assms by simp
next
  case (Suc k)
  then obtain T where T: "(own_step d ^^ k) S T" "own_step d T S'" by auto
  note IH = Suc.IH [OF T(1)]
  have "sys_step d T S'" using T(2) by (simp add: own_step_def)
  from sys_step_winds_up [OF this] sys_step_inv [OF this] IH T(2) show ?case
    by (auto simp: own_step_def)
qed

lemma todo_le: "todo S \<le> 5"
  by (cases "reader S"; cases "flusher S") (simp_all add: todo_def)

section \<open>Properties\<close>

definition ready_sys :: "session \<Rightarrow> flusher_pc \<Rightarrow> sess_sys" where
  "ready_sys s p = \<lparr>sys_w = demo_world [], sys_s = s, sys_read = [], reader = Reading, flusher = p, crashed = False\<rparr>"

text \<open>C12: Committed text is never retracted: every step of either thread keeps or extends the filtered
  and the unfiltered transcript; only the step of a config message that installs a new engine
  starts both over from empty.\<close>

theorem committed_text_only_grows:
  assumes "sys_step d S S'"
  shows "(prefix (raw_transcription (sys_s S)) (raw_transcription (sys_s S'))
      \<and> prefix (full_transcription (sys_s S)) (full_transcription (sys_s S')))
    \<or> ((\<exists>v cx. reader S = Installing v cx) \<and> raw_transcription (sys_s S') = [] \<and> full_transcription (sys_s S') = [])"
  using sys_step_text [OF assms] by (auto simp: text_le_def)

theorem committed_text_only_grows_witness:
  "prefix (raw_transcription (windowed full_window)) (raw_transcription (sendMessage demo_deps warning_msg (windowed full_window)))"
  using committed_text_only_grows [OF deliver [of "ready_sys (windowed full_window) (Sending warning_msg)" warning_msg demo_deps]]
  by (simp add: ready_sys_def)

text \<open>C3: The threads of a session end: in every state the session can reach, from the handshake on, some
  thread can move until both are joined, unless the process has died; and once the model has
  been released the two threads make at most five more steps, whatever their order and
  whatever the connection does, after which the flush thread is joined.\<close>

theorem session_threads_end:
  assumes "cache_ok (cfg_model_path cfg) (w_cache w)" and "sys_steps d (start_sys w cfg sid now) S" and "\<not> crashed S"
  shows "(reader S \<noteq> Joined \<longrightarrow> (\<exists>S'. own_step d S S'))
    \<and> (wound_up (reader S) \<longrightarrow> (\<forall>k S'. (own_step d ^^ k) S S' \<longrightarrow>
          k \<le> 5 \<and> ((\<nexists>T. own_step d S' T) \<longrightarrow> reader S' = Joined \<and> flusher S' = Not_Running)))"
proof -
  have inv: "sys_inv S" using sys_steps_inv [OF assms(2) start_sys_inv [OF assms(1)]] .
  have fl: "flag_inv S" by (rule sys_steps_flag [OF assms(2) start_sys_inv [OF assms(1)]]) (simp add: flag_inv_def start_sys_def)
  have "k \<le> 5 \<and> ((\<nexists>T. own_step d S' T) \<longrightarrow> reader S' = Joined \<and> flusher S' = Not_Running)"
    if w: "wound_up (reader S)" and k: "(own_step d ^^ k) S S'" for k S'
  proof -
    note b = own_steps_bounded [OF k inv fl w]
    have "reader S' = Joined" if "\<nexists>T. own_step d S' T"
      using own_step_exists [of S' d] b that assms(3) by auto
    then show ?thesis using b todo_le [of S] by (auto simp: flag_inv_def)
  qed
  then show ?thesis using own_step_exists [OF inv fl assms(3)] by blast
qed

lemma refused_handshake:
  "sys_steps d (start_sys w cfg sid 0)
     ((start_sys w cfg sid 0)\<lparr>sys_w := w, sys_s := new_session cfg sid 0, reader := Lowering\<rparr>)"
proof -
  let ?S = "start_sys w cfg sid 0"
  have "sys_step d ?S (?S\<lparr>reader := Stopped\<rparr>)" by (rule no_handshake) (simp_all add: start_sys_def)
  moreover have "sys_step d (?S\<lparr>reader := Stopped\<rparr>)
      ((?S\<lparr>reader := Stopped\<rparr>)\<lparr>sys_w := w, sys_s := new_session cfg sid 0, reader := Lowering\<rparr>)"
    by (rule give_back [where now = 0])
      (simp_all add: start_sys_def flusher_locks_def releaseModel_def new_session_def)
  ultimately show ?thesis
    using converse_rtranclp_into_rtranclp [of "sys_step d"] r_into_rtranclp [of "sys_step d"] by fastforce
qed

theorem session_threads_end_witness:
  "\<nexists>S'. (own_step demo_deps ^^ 6) ((start_sys (demo_world []) demo_config ''id'' 0)\<lparr>reader := Lowering\<rparr>) S'"
proof -
  have e: "(start_sys (demo_world []) demo_config ''id'' 0)
      \<lparr>sys_w := demo_world [], sys_s := new_session demo_config ''id'' 0, reader := Lowering\<rparr>
    = (start_sys (demo_world []) demo_config ''id'' 0)\<lparr>reader := Lowering\<rparr>" by (simp add: start_sys_def)
  note t = session_threads_end [OF _ refused_handshake [of demo_deps "demo_world []" demo_config "''id''"], unfolded e]
  have "cache_ok (cfg_model_path demo_config) (w_cache (demo_world []))" by (simp add: demo_world_def)
  moreover have "\<not> crashed ((start_sys (demo_world []) demo_config ''id'' 0)\<lparr>reader := Lowering\<rparr>)"
    by (simp add: start_sys_def)
  moreover have "wound_up (reader ((start_sys (demo_world []) demo_config ''id'' 0)\<lparr>reader := Lowering\<rparr>))" by simp
  ultimately have "(own_step demo_deps ^^ 6) ((start_sys (demo_world []) demo_config ''id'' 0)\<lparr>reader := Lowering\<rparr>) S' \<Longrightarrow> (6::nat) \<le> 5" for S'
    using t by blast
  then show ?thesis by auto
qed

text \<open>C35: When the decoder fails in the flush thread, the exception leaves the thread and ends the
  process, with the slot of the limiter still taken: from then on the client is sent nothing
  more. A failure in the receive loop only ends its session.\<close>

theorem decoder_failure_in_flush_is_fatal:
  assumes "\<not> crashed S" and "flusher S = Sleeping" and "reader S \<noteq> Finishing" and "flush_running (sys_s S)"
    and "configured (sys_s S)" and "s_engine (sys_s S) = Some e" and "32000 \<le> getBufferSize e"
    and "flush_wanted now (getBufferSize e) (sys_s S)"
    and "hasCapacity (w_inf (sys_w S))" and "wo_code (whisper d (mk_params e) (audio_buffer e)) \<noteq> 0"
  shows "\<exists>S'. sys_steps d S S' \<and> crashed S'
    \<and> active_count (w_inf (sys_w S')) = active_count (w_inf (sys_w S)) + 1
    \<and> (\<forall>S''. sys_steps d S' S'' \<longrightarrow> ws_sent (sys_s S'') = ws_sent (sys_s S))
    \<and> fst (end_collect d (sys_s S)) = Some (transcription_failed (wo_code (whisper d (mk_params e) (audio_buffer e))))"
proof -
  let ?x = "transcription_failed (wo_code (whisper d (mk_params e) (audio_buffer e)))"
  have ne: "audio_buffer e \<noteq> []" using assms(7) by (auto simp: getBufferSize_def)
  have err: "transcribeSlidingWindow (whisper d) f e = (Inl ?x, e)" for f
    using transcribe_error [of e "whisper d" f] ne assms(10) by simp
  let ?l = "(w_inf (sys_w S))\<lparr>active_count := active_count (w_inf (sys_w S)) + 1\<rparr>"
  have st: "flush_start now (w_inf (sys_w S)) (sys_s S) = (Some (getBufferSize e), ?l)"
    using assms by (simp add: flush_start_def Let_def inf_try_acquire_def hasCapacity_def)
  let ?T = "S\<lparr>sys_w := (sys_w S)\<lparr>w_inf := ?l\<rparr>, flusher := Inferring (getBufferSize e)\<rparr>"
  let ?U = "?T\<lparr>sys_w := (sys_w ?T)\<lparr>w_inf := ?l\<rparr>, sys_s := (sys_s S)\<lparr>s_engine := Some e\<rparr>,
    flusher := Inferring (getBufferSize e), crashed := True\<rparr>"
  have "flush_infer d (getBufferSize e) ?l (sys_s S) = (FThrow ?x, ?l, (sys_s S)\<lparr>s_engine := Some e\<rparr>)"
    using assms(6) by (simp add: flush_infer_def err)
  then have "sys_step d ?T ?U" using infer [of ?T "getBufferSize e" d "FThrow ?x" ?l] assms(1) by simp
  moreover have "sys_step d S ?T" by (rule start [OF assms(1,2,4,3) st])
  ultimately have "sys_steps d S ?U" by (meson converse_rtranclp_into_rtranclp r_into_rtranclp)
  then show ?thesis by (intro exI [of _ ?U]) (auto simp: end_collect_def err assms(6) dest: crashed_steps)
qed

theorem decoder_failure_in_flush_is_fatal_witness:
  "\<exists>S'. sys_steps (demo_deps\<lparr>whisper := (\<lambda>_ _. \<lparr>wo_code = 1, wo_segments = [], wo_lang = None\<rparr>)\<rparr>)
      (ready_sys (windowed full_window) Sleeping) S' \<and> crashed S'"
  using decoder_failure_in_flush_is_fatal [of "ready_sys (windowed full_window) Sleeping" full_window 1
      "demo_deps\<lparr>whisper := (\<lambda>_ _. \<lparr>wo_code = 1, wo_segments = [], wo_lang = None\<rparr>)\<rparr>"] full_window_size
  by (auto simp: ready_sys_def windowed_def live_session_def new_session_def flush_wanted_def demo_world_def
      hasCapacity_def new_inference_limiter_def word_le_nat_alt)

text \<open>C36: A partial transcription can reach the client after the final one: a message the flush thread
  has put together before the end of the stream is sent without the mutex, so it may follow
  the final message, as long as the connection is not closed yet and both can be printed.\<close>

theorem partial_may_follow_final:
  assumes "\<not> crashed S" and "reader S = Reading" and "flusher S = Sending m" and "ws_open (sys_s S)" and "ws_link (sys_s S)"
    and "is_end d f" and "configured (sys_s S)" and "end_collect d (sys_s S) = (None, s)"
    and "can_dump d m" and "can_dump d (transcription_msg (full_transcription s) True)"
  shows "\<exists>S'. sys_steps d S S' \<and> ws_sent (sys_s S')
    = ws_sent (sys_s S) @ [transcription_msg (full_transcription s) True, m]"
proof -
  have ws: "ws_open s = ws_open (sys_s S)" "ws_link s = ws_link (sys_s S)" "ws_sent s = ws_sent (sys_s S)"
    using end_collect_ws [of d "sys_s S"] assms(8) by simp_all
  let ?S0 = "S\<lparr>sys_read := sys_read S @ [f], reader := Finishing\<rparr>"
  let ?S1 = "?S0\<lparr>sys_s := s, reader := Answering\<rparr>"
  let ?S2 = "?S1\<lparr>sys_s := end_send d s, reader := Closing\<rparr>"
  let ?S3 = "?S2\<lparr>sys_s := sendMessage d m (end_send d s), flusher := Relocking\<rparr>"
  have "sys_step d S ?S0" using assms by (intro finish [of S d f]) (simp_all add: readable_def flusher_locks_def)
  moreover have "sys_step d ?S0 ?S1" using collect [of ?S0 d None s] assms(1,8) by simp
  moreover have "sys_step d ?S1 ?S2" using answer [of ?S1 d] assms(1) by simp
  moreover have "sys_step d ?S2 ?S3" using deliver [of ?S2 m d] assms(1,3) by simp
  ultimately have "sys_steps d S ?S3" by (meson converse_rtranclp_into_rtranclp r_into_rtranclp)
  moreover have "ws_sent (sys_s ?S3) = ws_sent (sys_s S) @ [transcription_msg (full_transcription s) True, m]"
    using assms(4,5,9,10) by (simp add: end_send_def ws sendMessage_def)
  ultimately show ?thesis by blast
qed

definition end_deps :: deps where
  "end_deps = demo_deps\<lparr>parse_json := (\<lambda>m. Inr (JObj [(''type'', JStr ''end'')])), whisper := decodes []\<rparr>"

theorem partial_may_follow_final_witness:
  "\<exists>S'. sys_steps end_deps (ready_sys (windowed engine0) (Sending (transcription_msg ''old'' False))) S'
    \<and> ws_sent (sys_s S') = [transcription_msg [] True, transcription_msg ''old'' False]"
proof -
  have "end_collect end_deps (windowed engine0) = (None, windowed engine0)"
    by (simp add: end_collect_def windowed_def live_session_def new_session_def raw_fallback_def
        transcribeSlidingWindow_def engine0_def)
  then show ?thesis
    using partial_may_follow_final [of "ready_sys (windowed engine0) (Sending (transcription_msg ''old'' False))" _ end_deps
        "Text ''e''" "windowed engine0"]
    by (simp add: ready_sys_def windowed_def live_session_def new_session_def is_end_def end_deps_def demo_deps_def)
qed

end
