(* ===== verification/Session_Protocol.thy ===== *)
theory Session_Protocol
  imports Session_Threads
begin

text \<open>
  The messages one session sends, over all interleavings of its two threads: their types, that
  no transcription comes before the greeting, and that there is at most one final one.
\<close>

section \<open>The messages a client sees\<close>

definition is_ready :: "json \<Rightarrow> bool" where
  "is_ready j \<longleftrightarrow> field j ''type'' = JStr ''ready''"

definition is_transcription :: "json \<Rightarrow> bool" where
  "is_transcription j \<longleftrightarrow> field j ''type'' = JStr ''transcription''"

definition is_final_msg :: "json \<Rightarrow> bool" where
  "is_final_msg j \<longleftrightarrow> is_transcription j \<and> field j ''is_final'' = JBool True"

definition error_codes :: "string list" where
  "error_codes = [''AUTH_REQUIRED'', ''AUTH_FAILED'', ''CONFIG_ERROR'', ''NOT_CONFIGURED'', ''PARSE_ERROR'',
     ''INVALID_MESSAGE'', ''UNKNOWN_TYPE'', ''AUDIO_ERROR'']"

text \<open>The four kinds of messages of the protocol, with the fields and types of each.\<close>

definition protocol_msg :: "json \<Rightarrow> bool" where
  "protocol_msg j \<longleftrightarrow> (case field j ''type'' of
       JStr t \<Rightarrow>
         (if t = ''ready'' then field j ''protocol_version'' = JInt 1 \<and> is_string (field j ''session_id'')
            \<and> is_string (field (field j ''config'') ''language'')
            \<and> field (field j ''config'') ''sample_rate'' = JInt 16000
            \<and> is_number (field (field j ''config'') ''beam_size'')
          else if t = ''error'' then is_string (field j ''message'')
            \<and> field j ''code'' \<in> JStr ` set error_codes
          else if t = ''warning'' then is_string (field j ''message'') \<and> field j ''code'' = JStr ''buffer_full''
          else t = ''transcription'' \<and> is_string (field j ''text'')
            \<and> field j ''is_final'' \<in> {JBool True, JBool False})
     | _ \<Rightarrow> False)"

lemma msg_kinds [simp]:
  "protocol_msg (ready_msg s)" "c \<in> set error_codes \<Longrightarrow> protocol_msg (error_msg m c)" "protocol_msg warning_msg"
  "protocol_msg (transcription_msg t b)"
  "is_ready (ready_msg s)" "\<not> is_ready (error_msg m c)" "\<not> is_ready warning_msg" "\<not> is_ready (transcription_msg t b)"
  "\<not> is_transcription (ready_msg s)" "\<not> is_transcription (error_msg m c)" "\<not> is_transcription warning_msg"
  "is_transcription (transcription_msg t b)"
  "is_final_msg (transcription_msg t b) = b" "\<not> is_final_msg (ready_msg s)" "\<not> is_final_msg (error_msg m c)"
  "\<not> is_final_msg warning_msg"
  by (auto simp: protocol_msg_def ready_msg_def error_msg_def warning_msg_def transcription_msg_def is_ready_def
      is_transcription_def is_final_msg_def)

text \<open>A list of sent messages: of the protocol, no transcription before the first \<open>ready\<close>.\<close>

definition sent_ok :: "json list \<Rightarrow> bool" where
  "sent_ok ms \<longleftrightarrow> (\<forall>j \<in> set ms. protocol_msg j)
     \<and> (\<forall>j \<in> set (takeWhile (\<lambda>j. \<not> is_ready j) ms). \<not> is_transcription j)"

lemma sent_ok_snoc:
  assumes "sent_ok ms" and "protocol_msg m" and "is_transcription m \<Longrightarrow> \<exists>j \<in> set ms. is_ready j"
  shows "sent_ok (ms @ [m])"
proof (cases "\<exists>j \<in> set ms. is_ready j")
  case True
  then have "takeWhile (\<lambda>j. \<not> is_ready j) (ms @ [m]) = takeWhile (\<lambda>j. \<not> is_ready j) ms"
    by (auto simp: takeWhile_append1)
  then show ?thesis using assms by (simp add: sent_ok_def)
next
  case False
  then have eq: "takeWhile (\<lambda>j. \<not> is_ready j) ms = ms" by (simp add: takeWhile_eq_all_conv)
  have "\<forall>j \<in> set ms. protocol_msg j \<and> \<not> is_transcription j"
    using assms(1) unfolding sent_ok_def eq by blast
  then have "\<forall>j \<in> set (ms @ [m]). protocol_msg j \<and> \<not> is_transcription j"
    using assms(2,3) False by auto
  then show ?thesis unfolding sent_ok_def by (meson set_takeWhileD)
qed

definition finals :: "session \<Rightarrow> nat" where
  "finals s = length (filter is_final_msg (ws_sent s))"

text \<open>The client has been greeted, or can be sent nothing any more.\<close>

definition conn_up :: "session \<Rightarrow> bool" where
  "conn_up s \<longleftrightarrow> ws_open s \<and> ws_link s"

definition greeted :: "session \<Rightarrow> bool" where
  "greeted s \<longleftrightarrow> (\<exists>j \<in> set (ws_sent s). is_ready j) \<or> \<not> conn_up s"

text \<open>
  How a step may change what concerns the connection: it loses it or not, and sends at most
  one message, no transcription before the greeting.
\<close>

definition talk :: "session \<Rightarrow> session \<Rightarrow> bool" where
  "talk s s' \<longleftrightarrow> (conn_up s' \<longrightarrow> conn_up s)
     \<and> (ws_sent s' = ws_sent s \<or> conn_up s \<and> (\<exists>m. ws_sent s' = ws_sent s @ [m] \<and> protocol_msg m \<and> \<not> is_transcription m))"

lemma talk_refl [simp]: "talk s s"
  by (simp add: talk_def)

lemma talk_send: "protocol_msg m \<Longrightarrow> \<not> is_transcription m \<Longrightarrow> talk s (sendMessage d m s)"
  by (auto simp: talk_def sendMessage_def conn_up_def)

lemma talk_error: "c \<in> set error_codes \<Longrightarrow> talk s (sendError d m c s)"
  by (simp add: sendError_def talk_send)

lemma talk_failed: "talk s (config_failed d x s)"
  unfolding config_failed_def by (rule talk_error) (simp add: error_codes_def)

lemma talk_trans_silent:
  "talk s t \<Longrightarrow> ws_sent u = ws_sent t \<Longrightarrow> (conn_up u \<Longrightarrow> conn_up t) \<Longrightarrow> talk s u"
  by (auto simp: talk_def)

lemma talk_silent: "ws_sent s' = ws_sent s \<Longrightarrow> ws_open s' = ws_open s \<Longrightarrow> ws_link s' = ws_link s \<Longrightarrow> talk s s'"
  by (simp add: talk_def conn_up_def)

lemma talk_silent_left: "ws_sent t = ws_sent s \<Longrightarrow> ws_open t = ws_open s \<Longrightarrow> ws_link t = ws_link s \<Longrightarrow> talk t u \<Longrightarrow> talk s u"
  by (auto simp: talk_def conn_up_def)

lemma conn_up_close: "\<not> conn_up (snd (close_ws c s))"
  by (auto simp: close_ws_def conn_up_def)

lemma sent_close [simp]: "ws_sent (snd (close_ws c s)) = ws_sent s"
  by (simp add: close_ws_def)

lemma talk_close: "talk s t \<Longrightarrow> talk s (snd (close_ws c t))"
  by (rule talk_trans_silent) (simp_all add: conn_up_close)

lemma talk_reply:
  assumes "handle_frame d t0 t1 (Text m) w s = (x, w', s')" and "\<not> is_config d (Text m)"
    and "\<not> (is_end d (Text m) \<and> configured s)"
  shows "talk s s'"
  using assms
  by (auto simp: is_config_def is_end_def handle_frame_def handleJsonMessage_def not_configured_def Let_def
      error_codes_def intro!: talk_error split: sum.splits option.splits if_splits)

lemma talk_prepare:
  assumes "prepare_config d t0 t1 msg w s = (r, w', s')"
  shows "talk s s'"
proof -
  obtain ra wa where au: "auth_check d t0 t1 msg w = (ra, wa)" by fastforce
  have codes: "ra = Some (mg, c) \<Longrightarrow> c \<in> set error_codes" for mg c
    using au by (auto simp: auth_check_def error_codes_def Let_def split: if_splits sum.splits prod.splits)
  show ?thesis
  proof (cases ra)
    case (Some p)
    obtain mg c where p: "p = (mg, c)" by fastforce
    have s': "s' = snd (close_ws Policy_Error (sendError d mg c s))"
      using assms by (simp add: prepare_config_def au Some p split: prod.splits)
    show ?thesis unfolding s' using talk_close [OF talk_error [OF codes [of mg c]]] Some p by simp
  next
    case None
    then have "ws_sent s' = ws_sent s \<and> ws_open s' = ws_open s \<and> ws_link s' = ws_link s"
      using assms by (auto simp: prepare_config_def au Let_def split: sum.splits)
    then show ?thesis using talk_silent by simp
  qed
qed

lemma prepare_failed:
  assumes "prepare_config d t0 t1 msg w s = (Inl (Some x), w', s')"
  shows "ws_sent s' = ws_sent s \<and> ws_open s' = ws_open s \<and> ws_link s' = ws_link s"
  using assms
  by (auto simp: prepare_config_def close_ws_def sendError_def sendMessage_def Let_def
      split: option.splits sum.splits prod.splits if_splits)

lemma talk_guard:
  assumes "binary_guard d now data s = (r, s')"
  shows "talk s s'"
  using assms
  by (auto simp: binary_guard_def not_configured_def close_ws_ec_def error_codes_def Let_def
      intro!: talk_error talk_close talk_silent split: if_splits)

text \<open>
  The invariant of the protocol. A session that is configured but not greeted is just about
  to send \<open>ready\<close> and has no audio yet, so the flush thread cannot have anything to send.
\<close>

definition flush_silent :: "sess_sys \<Rightarrow> bool" where
  "flush_silent S \<longleftrightarrow> (case flusher S of Inferring n \<Rightarrow> False | Sending m \<Rightarrow> False | _ \<Rightarrow> True)"

definition protocol_inv :: "sess_sys \<Rightarrow> bool" where
  "protocol_inv S \<longleftrightarrow> sent_ok (ws_sent (sys_s S))
     \<and> (configured (sys_s S) \<and> \<not> greeted (sys_s S) \<longrightarrow>
          reader S = Greeting \<and> (\<forall>e. s_engine (sys_s S) = Some e \<longrightarrow> audio_buffer e = []))
     \<and> (\<not> flush_silent S \<longrightarrow> greeted (sys_s S))
     \<and> (\<forall>m. flusher S = Sending m \<longrightarrow> (\<exists>t. m = transcription_msg t False))
     \<and> (reader S \<in> {Finishing, Answering} \<longrightarrow> configured (sys_s S))
     \<and> finals (sys_s S) \<le> 1
     \<and> (finals (sys_s S) = 1 \<longrightarrow> reader S = Closing \<or> \<not> conn_up (sys_s S))"

lemma talk_greeted: "talk s s' \<Longrightarrow> greeted s \<Longrightarrow> greeted s'"
  by (auto simp: talk_def greeted_def)

lemma talk_finals: "talk s s' \<Longrightarrow> finals s' = finals s"
  by (auto simp: talk_def finals_def is_final_msg_def)

lemma talk_sent: "talk s s' \<Longrightarrow> sent_ok (ws_sent s) \<Longrightarrow> sent_ok (ws_sent s')"
  by (auto simp: talk_def intro: sent_ok_snoc)

text \<open>Steps that only talk, and configure nothing.\<close>

lemma protocol_talk:
  assumes "protocol_inv S" and "talk (sys_s S) (sys_s S')" and "reader S \<notin> {Greeting, Closing}"
    and "configured (sys_s S') = configured (sys_s S)" and "flusher S' = flusher S"
    and "reader S' \<notin> {Finishing, Answering}"
  shows "protocol_inv S'"
proof -
  have s: "flush_silent S' = flush_silent S" using assms(5) by (simp add: flush_silent_def)
  have g: "greeted (sys_s S) \<Longrightarrow> greeted (sys_s S')" by (rule talk_greeted [OF assms(2)])
  note inv = assms(1) [unfolded protocol_inv_def]
  have inv1: "sent_ok (ws_sent (sys_s S))" and inv5: "finals (sys_s S) \<le> 1"
    and inv4: "\<forall>m. flusher S = Sending m \<longrightarrow> (\<exists>t. m = transcription_msg t False)" using inv by blast+
  have inv2: "configured (sys_s S) \<longrightarrow> greeted (sys_s S)" using inv assms(3) by blast
  have inv3: "\<not> flush_silent S \<longrightarrow> greeted (sys_s S)" using inv by blast
  have inv6: "finals (sys_s S) = 1 \<longrightarrow> \<not> conn_up (sys_s S)" using inv assms(3) by blast
  have f: "finals (sys_s S') = 1 \<longrightarrow> \<not> conn_up (sys_s S')"
    using inv6 talk_finals [OF assms(2)] assms(2) unfolding talk_def by metis
  have f1: "finals (sys_s S') \<le> 1" using inv5 talk_finals [OF assms(2)] by simp
  show ?thesis unfolding protocol_inv_def s assms(4,5)
    by (intro conjI talk_sent [OF assms(2) inv1] f1) (use inv2 inv3 inv4 g f assms(6) in blast)+
qed

text \<open>The flush thread moves and has nothing to send afterwards.\<close>

lemma protocol_update:
  assumes "protocol_inv S" and "sent_ok (ws_sent (sys_s S'))" and "finals (sys_s S') = finals (sys_s S)"
    and "configured (sys_s S') = configured (sys_s S)" and "s_engine (sys_s S') = s_engine (sys_s S)"
    and "conn_up (sys_s S') = conn_up (sys_s S)" and "greeted (sys_s S) \<Longrightarrow> greeted (sys_s S')"
    and "reader S' = reader S" and "flush_silent S'"
  shows "protocol_inv S'"
proof -
  have "flusher S' \<noteq> Sending m" for m using assms(9) by (auto simp: flush_silent_def)
  then show ?thesis using assms(1,2,7,9) unfolding protocol_inv_def assms(3-6,8) by blast
qed

lemma protocol_down:
  assumes "protocol_inv S" and "ws_sent (sys_s S') = ws_sent (sys_s S)" and "configured (sys_s S') = configured (sys_s S)"
    and "reader S' = reader S" and "flusher S' = flusher S" and "\<not> conn_up (sys_s S')"
  shows "protocol_inv S'"
proof -
  have "finals (sys_s S') = finals (sys_s S)" "greeted (sys_s S')" using assms by (simp_all add: finals_def greeted_def)
  then show ?thesis using assms(1,6) unfolding protocol_inv_def flush_silent_def assms(2-5) greeted_def by (metis (no_types))
qed

lemma protocol_quiet:
  assumes "protocol_inv S" and "sys_s S' = sys_s S" and "reader S' = reader S" and "flush_silent S'"
  shows "protocol_inv S'"
proof (rule protocol_update [OF assms(1)])
  show "sent_ok (ws_sent (sys_s S'))" using assms(1,2) unfolding protocol_inv_def by simp
qed (use assms in simp_all)

lemma sendMessage_sent:
  "ws_sent (sendMessage d m s) = ws_sent s \<or> conn_up s \<and> ws_sent (sendMessage d m s) = ws_sent s @ [m]"
  "conn_up (sendMessage d m s) = conn_up s" "greeted s \<Longrightarrow> greeted (sendMessage d m s)"
  by (auto simp: sendMessage_def conn_up_def greeted_def)

text \<open>A transcription is sent to a greeted client only.\<close>

lemma send_transcription:
  assumes "sent_ok (ws_sent s)" and "greeted s"
  shows "sent_ok (ws_sent (sendMessage d (transcription_msg t b) s))"
  using assms sendMessage_sent(1) [of d "transcription_msg t b" s]
  by (auto simp: greeted_def intro!: sent_ok_snoc)

lemma finals_send:
  "finals (sendMessage d (transcription_msg t b) s) \<le> finals s + of_bool (b \<and> conn_up s)"
  using sendMessage_sent(1) [of d "transcription_msg t b" s] by (auto simp: finals_def)

lemma finals_send_partial: "finals (sendMessage d (transcription_msg t False) s) = finals s"
  using sendMessage_sent(1) [of d "transcription_msg t False" s] by (auto simp: finals_def)

section \<open>The data of the greeting\<close>

text \<open>
  The greeting contains two strings: an identifier made by \<open>generateSessionId\<close>, and a language that
  is \<open>''es''\<close> or was read from a parsed message. \<open>D\<close> are the answers the libraries may give.
\<close>

definition greeting_data :: "deps set \<Rightarrow> session \<Rightarrow> bool" where
  "greeting_data D s \<longleftrightarrow> (\<exists>t n. session_id s = generateSessionId t n)
     \<and> (s_language s = ''es'' \<or> (\<exists>d \<in> D. \<exists>m msg. parse_json d m = Inr msg \<and> field msg ''language'' = JStr (s_language s)))"

lemma greeting_send [simp]:
  "session_id (sendMessage d m s) = session_id s" "s_language (sendMessage d m s) = s_language s"
  "session_id (snd (close_ws c s)) = session_id s" "s_language (snd (close_ws c s)) = s_language s"
  by (simp_all add: sendMessage_def close_ws_def)

lemmas message_defs = sendError_def sendReady_def config_failed_def audio_failed_def not_configured_def end_send_def

lemma greeting_same:
  "greeting_data D s \<Longrightarrow> session_id s' = session_id s \<Longrightarrow> s_language s' = s_language s \<Longrightarrow> greeting_data D s'"
  by (simp add: greeting_data_def)

lemma greeting_guard:
  assumes "binary_guard d now data s = (r, s')"
  shows "session_id s' = session_id s" "s_language s' = s_language s"
  using assms by (auto simp: binary_guard_def message_defs close_ws_ec_def Let_def split: if_splits)

lemma greeting_prepare:
  assumes "prepare_config d t0 t1 msg w s = (r, w', s')" and "parse_json d m = Inr msg" and "d \<in> D"
    and "greeting_data D s"
  shows "greeting_data D s'"
proof -
  have "session_id s' = session_id s \<and> (s_language s' = s_language s \<or> field msg ''language'' = JStr (s_language s'))"
    using assms(1)
    by (auto simp: prepare_config_def close_ws_def message_defs get_string_Inr Let_def
        split: option.splits sum.splits prod.splits if_splits)
  then show ?thesis using assms(2-4) unfolding greeting_data_def by metis
qed

lemma greeting_install:
  assumes "install_engine d now vad cx s = (x, s')"
  shows "session_id s' = session_id s" "s_language s' = s_language s"
  using assms by (auto simp: install_engine_def Let_def split: sum.splits)

lemma greeting_infer:
  assumes "flush_infer d n l s = (r, l', s')"
  shows "session_id s' = session_id s" "s_language s' = s_language s"
  using assms by (auto simp: flush_infer_def Let_def record_result_def split: option.splits prod.splits sum.splits if_splits)

lemma sys_step_greeting:
  assumes "sys_step d S S'" and "d \<in> D" and "greeting_data D (sys_s S)"
  shows "greeting_data D (sys_s S')"
  using assms(1,3)
proof (induction rule: sys_step.induct)
  case (reply S m t0 t1 x w s)
  then show ?case using reply_frame(10) [OF reply(5,3,4)]
    by (auto simp: sendError_def elim: greeting_same)
next
  case (prepare S m msg t0 t1 r w s)
  then have "greeting_data D s" using greeting_prepare [OF prepare(5,4) assms(2)] by simp
  then show ?case by (auto simp: message_defs elim: greeting_same split: sum.split option.split)
next
  case (install S vad cx now x s)
  then show ?case using greeting_install [OF install(4)]
    by (intro greeting_same [OF install(5)]) (simp_all add: message_defs split: option.split)
next
  case (audio S now data r s)
  then show ?case using greeting_guard [OF audio(3)] by (intro greeting_same [OF audio(4)]) simp_all
next
  case (store S pcm now r s)
  then show ?case using store_audio_frame(12,13) [OF store(4)] by (simp add: greeting_data_def)
next
  case (infer S n r l s)
  then show ?case using greeting_infer [OF infer(3)] by (simp add: greeting_data_def)
next
  case (load S vad r c)
  then show ?case by (intro greeting_same [OF load(4)]) (simp_all add: message_defs split: sum.split)
qed (auto simp: message_defs end_collect_def raw_fallback_def releaseModel_def
    elim!: greeting_same split: option.splits prod.splits sum.splits if_splits)

section \<open>The invariant is kept\<close>

lemma sys_step_protocol:
  assumes "sys_step d S S'" and "protocol_inv S" and "can_dump d (ready_msg (sys_s S))"
  shows "protocol_inv S'"
  using assms
proof (induction rule: sys_step.induct)
  case (accept S)
  then show ?case by (auto simp: protocol_inv_def flush_silent_def greeted_def conn_up_def finals_def)
next
  case (no_thread S)
  then show ?case by (auto simp: protocol_inv_def flush_silent_def greeted_def conn_up_def finals_def)
next
  case (no_handshake S)
  then show ?case by (auto simp: protocol_inv_def flush_silent_def)
next
  case (reply S m t0 t1 x w s)
  then show ?case using reply_frame(3) [OF reply(5,3,4)]
    by (intro protocol_talk [OF reply(6)]) (auto simp: readable_def intro: talk_reply)
next
  case (prepare S m msg t0 t1 r w s)
  have "talk (sys_s S) s" by (rule talk_prepare [OF prepare(5)])
  moreover have "talk (sys_s S) (config_failed d x s)" if "r = Inl (Some x)" for x
    using prepare_failed [of d t0 t1 msg "sys_w S" "sys_s S" x w s] prepare(5) that
    by (intro talk_silent_left [OF _ _ _ talk_failed]) auto
  ultimately have "talk (sys_s S) (case r of Inl (Some x) \<Rightarrow> config_failed d x s | _ \<Rightarrow> s)"
    by (simp split: sum.split option.split)
  then show ?case using prepare prepare_frame(4) [OF prepare(5)]
    by (intro protocol_talk [OF prepare(6)]) (auto simp: readable_def split: sum.splits option.splits)
next
  case (load S vad r c)
  then show ?case
    by (intro protocol_talk [OF load(4)]) (auto simp: talk_failed split: sum.splits)
next
  case (install S vad cx now x s)
  note f = install_frame [OF install(4)]
  show ?case
  proof (cases x)
    case (Some e)
    then have t: "talk (sys_s S) (config_failed d e s)"
      using f by (intro talk_silent_left [OF _ _ _ talk_failed]) auto
    then show ?thesis using Some f(7) install
      by (intro protocol_talk [OF install(5)]) auto
  next
    case None
    have "greeted s = greeted (sys_s S)" "finals s = finals (sys_s S)" "conn_up s = conn_up (sys_s S)"
      using f by (simp_all add: greeted_def conn_up_def finals_def)
    then show ?thesis using None install f by (auto simp: protocol_inv_def flush_silent_def)
  qed
next
  case (greet S)
  let ?s = "sendReady d (sys_s S)"
  have t: "talk (sys_s S) ?s" by (simp add: sendReady_def talk_send)
  have g: "greeted ?s" using greet(4)
    by (auto simp: sendReady_def sendMessage_def greeted_def conn_up_def)
  show ?case using greet t g talk_finals [OF t] talk_sent [OF t]
    by (auto simp: protocol_inv_def flush_silent_def talk_def)
next
  case (audio S now data r s)
  then show ?case using binary_guard_frame(1) [OF audio(3)]
    by (intro protocol_talk [OF audio(4)]) (auto simp: readable_def intro: talk_guard split: option.splits)
next
  case (store S pcm now r s)
  then show ?case using store_audio_frame [OF store(4)]
    by (intro protocol_talk [OF store(5)]) (auto intro: talk_silent split: sum.split)
next
  case (report S x)
  then show ?case
    by (intro protocol_talk [OF report(3)]) (auto simp: audio_failed_def error_codes_def intro: talk_error)
next
  case (warn S)
  then show ?case by (intro protocol_talk [OF warn(3)]) (auto intro: talk_send)
next
  case (finish S f)
  then show ?case by (auto simp: protocol_inv_def flush_silent_def readable_def)
next
  case (collect S x s)
  have s: "s = snd (end_collect d (sys_s S))" using collect(3) by simp
  have "greeted s = greeted (sys_s S)" "finals s = finals (sys_s S)" "conn_up s = conn_up (sys_s S)"
    "configured s = configured (sys_s S)" "ws_sent s = ws_sent (sys_s S)"
    using end_collect_ws [of d "sys_s S"] end_collect_frame [of d "sys_s S"]
    by (simp_all add: s greeted_def conn_up_def finals_def)
  then show ?case using collect by (auto simp: protocol_inv_def flush_silent_def)
next
  case (answer S)
  have g: "greeted (sys_s S)" "configured (sys_s S)" using answer by (auto simp: protocol_inv_def)
  have f0: "finals (sys_s S) = 0 \<or> \<not> conn_up (sys_s S)" using answer by (auto simp: protocol_inv_def)
  let ?s = "end_send d (sys_s S)"
  have "finals ?s \<le> finals (sys_s S) + of_bool (conn_up (sys_s S))"
    using finals_send [of d _ True] by (simp add: end_send_def)
  moreover have "finals (sys_s S) \<le> 1" using answer(3) by (simp add: protocol_inv_def)
  ultimately have "finals ?s \<le> 1" using f0 by (cases "conn_up (sys_s S)") simp_all
  moreover have "sent_ok (ws_sent ?s)" "greeted ?s"
    using send_transcription g sendMessage_sent(3) answer(3) by (simp_all add: end_send_def protocol_inv_def)
  ultimately show ?case using answer by (simp add: protocol_inv_def flush_silent_def)
next
  case (close S)
  let ?s = "snd (close_ws Normal_Closure (sys_s S))"
  have "greeted ?s" "finals ?s = finals (sys_s S)" by (simp_all add: greeted_def conn_up_close finals_def)
  then show ?case using close
    by (simp add: protocol_inv_def flush_silent_def conn_up_close)
next
  case (give_back S now w s)
  have "ws_sent s = ws_sent (sys_s S) \<and> conn_up s = conn_up (sys_s S) \<and> configured s = configured (sys_s S)"
    using give_back(4) by (auto simp: releaseModel_def conn_up_def split: if_splits)
  then show ?case using give_back
    by (auto simp: protocol_inv_def flush_silent_def greeted_def finals_def)
next
  case (lower S)
  then show ?case by (auto simp: protocol_inv_def flush_silent_def greeted_def conn_up_def finals_def)
next
  case (start S now n l)
  obtain e where "s_engine (sys_s S) = Some e" "configured (sys_s S)" "n = getBufferSize e" "MIN_BUFFER_SAMPLES \<le> n"
    using flush_start_keeps [OF start(5)] by auto
  then have "greeted (sys_s S)" using start(6) by (auto simp: protocol_inv_def getBufferSize_def)
  then show ?case using start by (auto simp: protocol_inv_def)
next
  case (infer S n r l s)
  show ?case
  proof (cases "s_engine (sys_s S)")
    case None
    then have r: "r = FSkip" "s = sys_s S" using infer(3) unfolding flush_infer_def by simp_all
    then show ?thesis by (intro protocol_quiet [OF infer(4)]) (simp_all add: flush_silent_def)
  next
    case (Some e)
    note f = flush_infer_frame [OF infer(3) Some]
    have "greeted s = greeted (sys_s S)" "finals s = finals (sys_s S)" "conn_up s = conn_up (sys_s S)"
      using f by (simp_all add: greeted_def conn_up_def finals_def)
    moreover have "r = FSend m \<Longrightarrow> \<exists>t. m = transcription_msg t False" for m
      using Some by (cases rule: flush_infer_cases [of "sys_s S" e d n "w_inf (sys_w S)"])
        (use infer(3) in \<open>auto split: if_splits\<close>)
    moreover have "greeted (sys_s S)" using infer by (simp add: protocol_inv_def flush_silent_def)
    ultimately show ?thesis using infer f(1,4)
      by (auto simp: protocol_inv_def flush_silent_def split: flush_result.splits)
  qed
next
  case (deliver S m)
  then obtain t where m: "m = transcription_msg t False" and g: "greeted (sys_s S)"
    by (auto simp: protocol_inv_def flush_silent_def)
  let ?s = "sendMessage d m (sys_s S)"
  have sent: "sent_ok (ws_sent (sys_s S))" using deliver(3) unfolding protocol_inv_def by blast
  show ?case
  proof (rule protocol_update [OF deliver(3)])
    show "sent_ok (ws_sent (sys_s (S\<lparr>sys_s := ?s, flusher := Relocking\<rparr>)))"
      using send_transcription [OF sent g] by (simp add: m)
    show "finals (sys_s (S\<lparr>sys_s := ?s, flusher := Relocking\<rparr>)) = finals (sys_s S)"
      using finals_send_partial by (simp add: m)
  qed (simp_all add: flush_silent_def sendMessage_sent(2,3))
next
  case (link_lost S)
  show ?case by (rule protocol_down [OF link_lost(1)]) (simp_all add: conn_up_def)
next
  case (read_fails S)
  then show ?case by (intro protocol_talk [OF read_fails(3)]) simp_all
next
  case (join S)
  then show ?case by (intro protocol_talk [OF join(4)]) simp_all
next
  case (relock S)
  then show ?case by (intro protocol_quiet [OF relock(4)]) (simp_all add: flush_silent_def)
next
  case (stop S)
  then show ?case by (intro protocol_quiet [OF stop(4)]) (simp_all add: flush_silent_def)
qed

lemma start_sys_protocol: "protocol_inv (start_sys w cfg sid now)"
  by (simp add: protocol_inv_def start_sys_def new_session_def sent_ok_def flush_silent_def finals_def)

lemma start_sys_greeting: "greeting_data D (sys_s (start_sys w cfg (generateSessionId ms dis) now))"
  by (auto simp: greeting_data_def start_sys_def new_session_def)

text \<open>The invariant does not depend on the shared state.\<close>

lemma protocol_world [simp]: "protocol_inv (S\<lparr>sys_w := w\<rparr>) = protocol_inv S"
  by (simp add: protocol_inv_def flush_silent_def)

end
