(* ===== verification/Connection_Limiter.thy ===== *)
theory Connection_Limiter
  imports Slots "HOL-Library.Multiset"
begin

text \<open>
  \<open>src/server/ConnectionLimiter.cpp\<close> and \<open>src/server/ConnectionGuard.cpp\<close>: the caps on open
  connections, in total and per client address, and the guard that gives a slot back when
  the session thread ends. Every method runs under one mutex, so each is one step. The
  abstract specification is the multiset of the addresses of the open connections.
\<close>

section \<open>The limiter\<close>

record connection_limiter =
  per_ip :: "string \<rightharpoonup> nat"
  max_total :: nat
  max_per_ip :: nat
  total :: nat

definition new_limiter :: "nat \<Rightarrow> nat \<Rightarrow> connection_limiter" where
  "new_limiter mt mi = \<lparr>per_ip = Map.empty, max_total = mt, max_per_ip = mi, total = 0\<rparr>"

text \<open>The number of connections of an address; an address without entry has none.\<close>

definition ip_count :: "connection_limiter \<Rightarrow> string \<Rightarrow> nat" where
  "ip_count l ip = (case per_ip l ip of None \<Rightarrow> 0 | Some c \<Rightarrow> c)"

text \<open>\<open>per_ip_[ip]\<close> creates the entry, with value 0, before the per-address check.\<close>

definition tryAcquire :: "string \<Rightarrow> connection_limiter \<Rightarrow> bool \<times> connection_limiter" where
  "tryAcquire ip l =
     (if max_total l \<le> total l then (False, l)
      else let count = ip_count l ip;
               l1 = l\<lparr>per_ip := (per_ip l)(ip \<mapsto> count)\<rparr>
           in if max_per_ip l1 \<le> count then (False, l1)
              else (True, l1\<lparr>per_ip := (per_ip l1)(ip \<mapsto> count + 1), total := total l1 + 1\<rparr>))"

definition conn_release :: "string \<Rightarrow> connection_limiter \<Rightarrow> connection_limiter" where
  "conn_release ip l =
     (let l1 = (case per_ip l ip of
                  Some c \<Rightarrow>
                    (if 0 < c then
                       (if c - 1 = 0 then l\<lparr>per_ip := (per_ip l)(ip := None)\<rparr>
                        else l\<lparr>per_ip := (per_ip l)(ip \<mapsto> c - 1)\<rparr>)
                     else l)
                | None \<Rightarrow> l)
      in if 0 < total l1 then l1\<lparr>total := total l1 - 1\<rparr> else l1)"

definition conn_getMetrics :: "connection_limiter \<Rightarrow> string" where
  "conn_getMetrics l = ''transcription_active_connections '' @ to_string_nat (total l) @ [CHR 0x0A] @
     ''transcription_max_connections '' @ to_string_nat (max_total l) @ [CHR 0x0A]"

section \<open>Refinement of the multiset of open connections\<close>

text \<open>
  A limiter represents the multiset \<open>M\<close> when its counters are those of \<open>M\<close> and
  \<open>M\<close> is within both caps.
\<close>

definition represents :: "connection_limiter \<Rightarrow> string multiset \<Rightarrow> bool" where
  "represents l M \<longleftrightarrow> (\<forall>ip. ip_count l ip = count M ip) \<and> total l = size M
     \<and> size M \<le> max_total l \<and> (\<forall>ip. count M ip \<le> max_per_ip l)"

definition abs_acquire :: "nat \<Rightarrow> nat \<Rightarrow> string \<Rightarrow> string multiset \<Rightarrow> bool \<times> string multiset" where
  "abs_acquire mt mi ip M =
     (if size M < mt \<and> count M ip < mi then (True, add_mset ip M) else (False, M))"

lemma ip_count_upd [simp]: "ip_count (l\<lparr>per_ip := (per_ip l)(ip \<mapsto> c)\<rparr>) = (ip_count l)(ip := c)"
  by (auto simp: ip_count_def fun_eq_iff)

lemma ip_count_total [simp]: "ip_count (l\<lparr>total := t\<rparr>) = ip_count l"
  by (auto simp: ip_count_def fun_eq_iff)

lemma tryAcquire_caps [simp]:
  "max_total (snd (tryAcquire ip l)) = max_total l"
  "max_per_ip (snd (tryAcquire ip l)) = max_per_ip l"
  by (simp_all add: tryAcquire_def Let_def)

lemma release_caps [simp]: "max_total (conn_release ip l) = max_total l"
  "max_per_ip (conn_release ip l) = max_per_ip l"
  by (simp_all add: conn_release_def Let_def split: option.split)

lemma tryAcquire_result:
  "fst (tryAcquire ip l) = (total l < max_total l \<and> ip_count l ip < max_per_ip l)"
  by (auto simp: tryAcquire_def Let_def)

lemma tryAcquire_state:
  assumes "tryAcquire ip l = (b, l')"
  shows "total l' = total l + of_bool b" "ip_count l' = (ip_count l)(ip := ip_count l ip + of_bool b)"
proof -
  have "l' = snd (tryAcquire ip l)" and "b = fst (tryAcquire ip l)" using assms by simp_all
  then show "total l' = total l + of_bool b"
    and "ip_count l' = (ip_count l)(ip := ip_count l ip + of_bool b)"
    by (auto simp: tryAcquire_def Let_def ip_count_def fun_eq_iff)
qed

lemma release_state:
  assumes "0 < ip_count l ip" and "0 < total l"
  shows "total l = total (conn_release ip l) + 1" "ip_count (conn_release ip l) = (ip_count l)(ip := ip_count l ip - 1)"
  using assms by (auto simp: conn_release_def ip_count_def Let_def fun_eq_iff split: option.splits)

lemma represents_new: "represents (new_limiter mt mi) {#}"
  by (simp add: represents_def new_limiter_def ip_count_def)

lemma represents_tryAcquire:
  assumes "represents l M" and "tryAcquire ip l = (b, l')"
  shows "\<exists>M'. abs_acquire (max_total l) (max_per_ip l) ip M = (b, M') \<and> represents l' M'"
proof -
  have caps: "max_total l' = max_total l" "max_per_ip l' = max_per_ip l"
    using tryAcquire_caps [of ip l] assms(2) by simp_all
  have b: "b = (size M < max_total l \<and> count M ip < max_per_ip l)"
    using tryAcquire_result [of ip l] assms by (simp add: represents_def)
  show ?thesis
    using assms(1) tryAcquire_state [OF assms(2)] caps b
    by (auto simp: abs_acquire_def represents_def)
qed

lemma represents_release:
  assumes "represents l M" and "ip \<in># M"
  shows "represents (conn_release ip l) (M - {#ip#})"
proof -
  have c: "0 < ip_count l ip" "0 < total l"
    using assms by (auto simp: represents_def nonempty_has_size [symmetric])
  have "size M = size (M - {#ip#}) + 1" using assms(2) by (simp add: size_Suc_Diff1)
  with release_state [OF c] assms show ?thesis
    by (auto simp: represents_def le_diff_conv intro: le_SucI)
qed

section \<open>The limiter is a keyed pool\<close>

definition limiter_ok :: "connection_limiter \<Rightarrow> bool" where
  "limiter_ok l \<longleftrightarrow> (\<exists>M. represents l M)"

lemma limiter_ok_new [simp]: "limiter_ok (new_limiter mt mi)"
  unfolding limiter_ok_def using represents_new by blast

interpretation conns: keyed_pool tryAcquire conn_release total ip_count max_total max_per_ip limiter_ok
proof
  fix l k assume "limiter_ok l"
  show "fst (tryAcquire k l) = (total l < max_total l \<and> ip_count l k < max_per_ip l)"
    by (rule tryAcquire_result)
next
  fix l k b l' assume "limiter_ok l" and a: "tryAcquire k l = (b, l')"
  then show "limiter_ok l' \<and> total l' = total l + of_bool b
      \<and> ip_count l' = (ip_count l)(k := ip_count l k + of_bool b)"
    using represents_tryAcquire [OF _ a] tryAcquire_state [OF a] by (auto simp: limiter_ok_def)
next
  fix l k assume "limiter_ok l" and c: "0 < ip_count l k"
  then obtain M where M: "represents l M" by (auto simp: limiter_ok_def)
  then have k: "k \<in># M" using c by (auto simp: represents_def)
  then have "0 < total l" using M by (auto simp: represents_def nonempty_has_size [symmetric])
  then show "limiter_ok (conn_release k l) \<and> total l = total (conn_release k l) + 1
      \<and> ip_count (conn_release k l) = (ip_count l)(k := ip_count l k - 1)"
    using represents_release [OF M k] release_state [OF c] by (auto simp: limiter_ok_def)
qed simp_all

section \<open>The guard\<close>

text \<open>
  \<open>ConnectionGuard\<close> holds a \<open>shared_ptr\<close> to the limiter and an address. Moving from a guard
  leaves its pointer null; the destructor of a guard with a null pointer does nothing.
\<close>

type_synonym guard = "string option" \<comment> \<open>\<open>None\<close>: the pointer is null\<close>

definition guard_destroy :: "guard \<Rightarrow> connection_limiter \<Rightarrow> connection_limiter" where
  "guard_destroy g l = (case g of None \<Rightarrow> l | Some ip \<Rightarrow> conn_release ip l)"

definition guard_move :: "guard \<Rightarrow> guard \<times> guard" where
  "guard_move g = (g, None)" \<comment> \<open>the new guard, and the one moved from\<close>

lemma guard_move_releases_once:
  "(case guard_move (Some ip) of (g, old) \<Rightarrow> guard_destroy g (guard_destroy old l)) = conn_release ip l"
  by (simp add: guard_move_def guard_destroy_def)

section \<open>Properties\<close>

text \<open>C18: An attempt behaves as the specification on multisets: it is granted exactly when both caps
  leave room, a grant adds one connection of the address, a refusal changes nothing, and the
  counters follow.\<close>

theorem tryAcquire_refines:
  assumes "represents l M" and "tryAcquire ip l = (b, l')"
  shows "abs_acquire (max_total l) (max_per_ip l) ip M = (b, if b then add_mset ip M else M)
    \<and> represents l' (if b then add_mset ip M else M)"
  using represents_tryAcquire [OF assms] by (auto simp: abs_acquire_def split: if_splits)

theorem tryAcquire_refines_witness:
  "abs_acquire 1 1 ''a'' {#} = (True, {#''a''#})
    \<and> represents (snd (tryAcquire ''a'' (new_limiter 1 1))) {#''a''#}"
proof -
  have "tryAcquire ''a'' (new_limiter 1 1) = (True, snd (tryAcquire ''a'' (new_limiter 1 1)))"
    by (simp add: tryAcquire_def new_limiter_def ip_count_def)
  from tryAcquire_refines [OF represents_new this] show ?thesis by (simp add: new_limiter_def)
qed

end
