(* ===== verification/Config.thy ===== *)
theory Config
  imports Float32
begin

text \<open>
  The configuration of the server: \<open>src/server/ServerConfig.h\<close> and the functions of
  \<open>src/server.cpp\<close> that read the \<open>.env\<close> file, the environment and the command line. The
  environment is a map from names to values; a file is its text, \<open>None\<close> when it cannot be
  opened. The setters of the fields are shared by the environment and the command line.
\<close>

section \<open>Reading floats\<close>

text \<open>
  \<open>std::stof\<close>: \<open>strtof\<close> in the C locale. White space, a sign, then the longest prefix that is
  a number; what follows is ignored. The value is rounded once. A value that overflows, or
  that rounds inexactly to a subnormal number or zero, is out of range.
\<close>

definition lower :: "char \<Rightarrow> char" where
  "lower c = (let n = (of_char c :: nat) in if 65 \<le> n \<and> n \<le> 90 then char_of (n + 32) else c)"

definition hex_val :: "char \<Rightarrow> nat option" where
  "hex_val c = (let n = (of_char (lower c) :: nat) in
     if 48 \<le> n \<and> n \<le> 57 then Some (n - 48) else if 97 \<le> n \<and> n \<le> 102 then Some (n - 87) else None)"

definition digit_in :: "nat \<Rightarrow> char \<Rightarrow> bool" where
  "digit_in base c = (case hex_val c of Some v \<Rightarrow> v < base | None \<Rightarrow> False)"

definition number_of :: "nat \<Rightarrow> string \<Rightarrow> nat" where
  "number_of base ds = foldl (\<lambda>v c. base * v + the (hex_val c)) 0 ds"

text \<open>The digits before and after the point, and the rest; no conversion without a digit.\<close>

definition scan_mantissa :: "nat \<Rightarrow> string \<Rightarrow> (string \<times> string \<times> string) option" where
  "scan_mantissa base s =
     (let whole = takeWhile (digit_in base) s;
          r = dropWhile (digit_in base) s;
          (frac, r1) = (case r of
              c # t \<Rightarrow> if c = CHR ''.'' then (takeWhile (digit_in base) t, dropWhile (digit_in base) t) else ([], r)
            | [] \<Rightarrow> ([], []))
      in if whole = [] \<and> frac = [] then None else Some (whole, frac, r1))"

text \<open>An exponent counts only when at least one digit follows the letter and the sign.\<close>

definition scan_exponent :: "char \<Rightarrow> string \<Rightarrow> int" where
  "scan_exponent letter s = (case s of
       c # t \<Rightarrow>
         if lower c \<noteq> letter then 0
         else let neg = (case t of x # _ \<Rightarrow> x = CHR ''-'' | [] \<Rightarrow> False);
                  u = (case t of x # y \<Rightarrow> if x = CHR ''-'' \<or> x = CHR ''+'' then y else t | [] \<Rightarrow> []);
                  e = int (digits_val (takeWhile isdigit u))
              in if neg then - e else e
     | [] \<Rightarrow> 0)"

definition in_float_range :: "rat \<Rightarrow> float32 result" where
  "in_float_range x = (let f = fround x in
     if f = FInf True \<or> f = FInf False then Inl Out_Of_Range
     else if x \<noteq> 0 \<and> \<bar>x\<bar> < 2 powi (- 126) \<and> f \<noteq> FNum x then Inl Out_Of_Range
     else Inr f)"

definition scan_number :: "string \<Rightarrow> rat option" where
  "scan_number s =
     (let hex = (take 2 (map lower s) = ''0x'' \<and> scan_mantissa 16 (drop 2 s) \<noteq> None)
      in if hex then
           (case scan_mantissa 16 (drop 2 s) of
              Some (w, f, r) \<Rightarrow> Some (of_nat (number_of 16 (w @ f)) * 2 powi (scan_exponent CHR ''p'' r - 4 * int (length f)))
            | None \<Rightarrow> None)
         else
           (case scan_mantissa 10 s of
              Some (w, f, r) \<Rightarrow> Some (of_nat (number_of 10 (w @ f)) * 10 powi (scan_exponent CHR ''e'' r - int (length f)))
            | None \<Rightarrow> None))"

definition stof :: "string \<Rightarrow> float32 result" where
  "stof s =
     (let t = dropWhile isspace s;
          neg = (case t of c # _ \<Rightarrow> c = CHR ''-'' | [] \<Rightarrow> False);
          u = (case t of c # r \<Rightarrow> if c = CHR ''-'' \<or> c = CHR ''+'' then r else t | [] \<Rightarrow> [])
      in if take 3 (map lower u) = ''inf'' then Inr (FInf neg)
         else if take 3 (map lower u) = ''nan'' then Inr FNan
         else (case scan_number u of
                 None \<Rightarrow> Inl Invalid_Argument
               | Some x \<Rightarrow> in_float_range (if neg then - x else x)))"

section \<open>The configuration\<close>

record server_config =
  sc_model_path :: string
  sc_bind_address :: string
  sc_port :: nat
  sc_cert_path :: string
  sc_key_path :: string
  sc_max_connections :: nat
  sc_max_connections_per_ip :: nat
  sc_session_timeout_sec :: int
  sc_auth_token :: string
  sc_auth_api_url :: string
  sc_auth_api_secret :: string
  sc_auth_cache_ttl :: int
  sc_auth_api_timeout :: int
  sc_beam_size :: int
  sc_threads :: int
  sc_max_concurrent_inference :: int
  sc_model_cache_ttl :: int
  sc_initial_prompt :: string
  sc_temperature :: float32
  sc_temperature_inc :: float32
  sc_no_speech_thold :: float32
  sc_logprob_thold :: float32
  sc_shutdown_timeout_sec :: int

definition default_config :: server_config where
  "default_config = \<lparr>sc_model_path = ''third_party/whisper.cpp/models/ggml-small.bin'',
     sc_bind_address = ''0.0.0.0'', sc_port = 9001, sc_cert_path = [], sc_key_path = [],
     sc_max_connections = 8, sc_max_connections_per_ip = 2, sc_session_timeout_sec = 30,
     sc_auth_token = [], sc_auth_api_url = [], sc_auth_api_secret = [],
     sc_auth_cache_ttl = 300, sc_auth_api_timeout = 5,
     sc_beam_size = 1, sc_threads = 4, sc_max_concurrent_inference = 4, sc_model_cache_ttl = 300,
     sc_initial_prompt = [], sc_temperature = FNum 0, sc_temperature_inc = FNum 0,
     sc_no_speech_thold = fround (3 / 10), sc_logprob_thold = fround (- (7 / 10)),
     sc_shutdown_timeout_sec = 10\<rparr>"

section \<open>The environment\<close>

type_synonym environment = "string \<rightharpoonup> string"

text \<open>The lines \<open>std::getline\<close> reads one after the other.\<close>

function getlines :: "string \<Rightarrow> string list" where
  "getlines s = (if s = [] then []
     else takeWhile (\<lambda>c. c \<noteq> CHR 0x0A) s # getlines (drop 1 (dropWhile (\<lambda>c. c \<noteq> CHR 0x0A) s)))"
  by pat_completeness auto
termination
proof (relation "measure length", simp)
  fix s :: string
  assume "s \<noteq> []"
  then have "0 < length s" by simp
  moreover have "length (dropWhile (\<lambda>c. c \<noteq> CHR 0x0A) s) \<le> length s" by (rule length_dropWhile_le)
  ultimately have "length (drop 1 (dropWhile (\<lambda>c. c \<noteq> CHR 0x0A) s)) < length s"
    by (simp only: length_drop)
  then show "(drop 1 (dropWhile (\<lambda>c. c \<noteq> CHR 0x0A) s), s) \<in> measure length"
    by (simp only: in_measure)
qed

declare getlines.simps [simp del]

definition unquote :: "string \<Rightarrow> string" where
  "unquote value =
     (if 2 \<le> length value \<and> (hd value = CHR 0x22 \<or> hd value = CHR 0x27) \<and> last value = hd value
      then butlast (tl value) else value)"

definition dotenv_line :: "string \<Rightarrow> (string \<times> string) option" where
  "dotenv_line raw =
     (let line = (if raw \<noteq> [] \<and> last raw = CHR 0x0D then butlast raw else raw)
      in if line = [] \<or> hd line = CHR ''#'' then None
         else if CHR ''='' \<notin> set line then None
         else Some (takeWhile (\<lambda>c. c \<noteq> CHR ''='') line, unquote (tl (dropWhile (\<lambda>c. c \<noteq> CHR ''='') line))))"

definition set_if_unset :: "string \<Rightarrow> string \<Rightarrow> environment \<Rightarrow> environment" where
  "set_if_unset key value e = (if key \<noteq> [] \<and> e key = None then e(key \<mapsto> value) else e)"

fun load_lines :: "string list \<Rightarrow> environment \<Rightarrow> environment" where
  "load_lines [] e = e"
| "load_lines (l # ls) e =
     load_lines ls (case dotenv_line l of None \<Rightarrow> e | Some (k, v) \<Rightarrow> set_if_unset k v e)"

definition loadDotEnv :: "string option \<Rightarrow> environment \<Rightarrow> environment" where
  "loadDotEnv file e = (case file of None \<Rightarrow> e | Some text \<Rightarrow> load_lines (getlines text) e)"

definition env_get :: "environment \<Rightarrow> string \<Rightarrow> string" where
  "env_get e var = (case e var of Some v \<Rightarrow> v | None \<Rightarrow> [])"

section \<open>The setters\<close>

type_synonym setter = "string \<Rightarrow> server_config \<Rightarrow> server_config result"

definition set_string :: "(string \<Rightarrow> server_config \<Rightarrow> server_config) \<Rightarrow> setter" where
  "set_string upd v c = Inr (upd v c)"

definition set_int :: "(int \<Rightarrow> server_config \<Rightarrow> server_config) \<Rightarrow> setter" where
  "set_int upd v c = bind_result (stoi v) (\<lambda>i. Inr (upd i c))"

definition set_size :: "(nat \<Rightarrow> server_config \<Rightarrow> server_config) \<Rightarrow> setter" where
  "set_size upd v c = bind_result (stoul v) (\<lambda>n. Inr (upd n c))"

definition set_float :: "(float32 \<Rightarrow> server_config \<Rightarrow> server_config) \<Rightarrow> setter" where
  "set_float upd v c = bind_result (stof v) (\<lambda>f. Inr (upd f c))"

text \<open>The conversion to \<open>unsigned short\<close> keeps the low 16 bits.\<close>

definition set_port :: setter where
  "set_port = set_size (\<lambda>n. sc_port_update (\<lambda>_. n mod 2 ^ 16))"

text \<open>The variables that \<open>configFromEnv\<close> reads, in its order.\<close>

definition env_vars :: "(string \<times> setter) list" where
  "env_vars =
    [(''MODEL_PATH'', set_string (\<lambda>v. sc_model_path_update (\<lambda>_. v))),
     (''BIND_ADDRESS'', set_string (\<lambda>v. sc_bind_address_update (\<lambda>_. v))),
     (''PORT'', set_port),
     (''AUTH_TOKEN'', set_string (\<lambda>v. sc_auth_token_update (\<lambda>_. v))),
     (''AUTH_API_URL'', set_string (\<lambda>v. sc_auth_api_url_update (\<lambda>_. v))),
     (''AUTH_API_SECRET'', set_string (\<lambda>v. sc_auth_api_secret_update (\<lambda>_. v))),
     (''AUTH_CACHE_TTL'', set_int (\<lambda>v. sc_auth_cache_ttl_update (\<lambda>_. v))),
     (''AUTH_API_TIMEOUT'', set_int (\<lambda>v. sc_auth_api_timeout_update (\<lambda>_. v))),
     (''TLS_CERT'', set_string (\<lambda>v. sc_cert_path_update (\<lambda>_. v))),
     (''TLS_KEY'', set_string (\<lambda>v. sc_key_path_update (\<lambda>_. v))),
     (''MAX_CONNECTIONS'', set_size (\<lambda>v. sc_max_connections_update (\<lambda>_. v))),
     (''MAX_CONNECTIONS_PER_IP'', set_size (\<lambda>v. sc_max_connections_per_ip_update (\<lambda>_. v))),
     (''WHISPER_BEAM_SIZE'', set_int (\<lambda>v. sc_beam_size_update (\<lambda>_. v))),
     (''WHISPER_THREADS'', set_int (\<lambda>v. sc_threads_update (\<lambda>_. v))),
     (''MAX_CONCURRENT_INFERENCE'', set_int (\<lambda>v. sc_max_concurrent_inference_update (\<lambda>_. v))),
     (''MODEL_CACHE_TTL'', set_int (\<lambda>v. sc_model_cache_ttl_update (\<lambda>_. v))),
     (''WHISPER_INITIAL_PROMPT'', set_string (\<lambda>v. sc_initial_prompt_update (\<lambda>_. v))),
     (''SESSION_TIMEOUT_SEC'', set_int (\<lambda>v. sc_session_timeout_sec_update (\<lambda>_. v))),
     (''WHISPER_TEMPERATURE'', set_float (\<lambda>v. sc_temperature_update (\<lambda>_. v))),
     (''WHISPER_TEMPERATURE_INC'', set_float (\<lambda>v. sc_temperature_inc_update (\<lambda>_. v))),
     (''WHISPER_NO_SPEECH_THOLD'', set_float (\<lambda>v. sc_no_speech_thold_update (\<lambda>_. v))),
     (''WHISPER_LOGPROB_THOLD'', set_float (\<lambda>v. sc_logprob_thold_update (\<lambda>_. v))),
     (''SHUTDOWN_TIMEOUT_SEC'', set_int (\<lambda>v. sc_shutdown_timeout_sec_update (\<lambda>_. v)))]"

text \<open>An empty value counts as not set.\<close>

fun apply_env :: "(string \<times> setter) list \<Rightarrow> environment \<Rightarrow> server_config \<Rightarrow> server_config result" where
  "apply_env [] e c = Inr c"
| "apply_env ((var, f) # vs) e c =
     (let v = env_get e var in
      if v = [] then apply_env vs e c
      else case f v c of Inl x \<Rightarrow> Inl x | Inr c' \<Rightarrow> apply_env vs e c')"

definition configFromEnv :: "environment \<Rightarrow> server_config result" where
  "configFromEnv e = apply_env env_vars e default_config"

section \<open>The command line\<close>

text \<open>\<open>argv\<close> without the program name.\<close>

fun extractEnvFile :: "string list \<Rightarrow> string" where
  "extractEnvFile [] = ''.env''"
| "extractEnvFile [a] = ''.env''"
| "extractEnvFile (a # v # as) = (if a = ''--env-file'' then v else extractEnvFile (v # as))"

text \<open>The options with a value; \<open>--env-file\<close> only skips its value here.\<close>

definition options :: "(string \<times> setter) list" where
  "options =
    [(''--env-file'', set_string (\<lambda>v c. c)),
     (''--model'', set_string (\<lambda>v. sc_model_path_update (\<lambda>_. v))),
     (''--bind'', set_string (\<lambda>v. sc_bind_address_update (\<lambda>_. v))),
     (''--port'', set_port),
     (''--auth-token'', set_string (\<lambda>v. sc_auth_token_update (\<lambda>_. v))),
     (''--auth-api-url'', set_string (\<lambda>v. sc_auth_api_url_update (\<lambda>_. v))),
     (''--auth-api-secret'', set_string (\<lambda>v. sc_auth_api_secret_update (\<lambda>_. v))),
     (''--auth-cache-ttl'', set_int (\<lambda>v. sc_auth_cache_ttl_update (\<lambda>_. v))),
     (''--auth-api-timeout'', set_int (\<lambda>v. sc_auth_api_timeout_update (\<lambda>_. v))),
     (''--cert'', set_string (\<lambda>v. sc_cert_path_update (\<lambda>_. v))),
     (''--key'', set_string (\<lambda>v. sc_key_path_update (\<lambda>_. v))),
     (''--max-connections'', set_size (\<lambda>v. sc_max_connections_update (\<lambda>_. v))),
     (''--max-connections-per-ip'', set_size (\<lambda>v. sc_max_connections_per_ip_update (\<lambda>_. v))),
     (''--whisper-beam-size'', set_int (\<lambda>v. sc_beam_size_update (\<lambda>_. v))),
     (''--whisper-threads'', set_int (\<lambda>v. sc_threads_update (\<lambda>_. v))),
     (''--max-concurrent-inference'', set_int (\<lambda>v. sc_max_concurrent_inference_update (\<lambda>_. v))),
     (''--model-cache-ttl'', set_int (\<lambda>v. sc_model_cache_ttl_update (\<lambda>_. v))),
     (''--whisper-initial-prompt'', set_string (\<lambda>v. sc_initial_prompt_update (\<lambda>_. v))),
     (''--session-timeout-sec'', set_int (\<lambda>v. sc_session_timeout_sec_update (\<lambda>_. v))),
     (''--shutdown-timeout-sec'', set_int (\<lambda>v. sc_shutdown_timeout_sec_update (\<lambda>_. v))),
     (''--whisper-temperature'', set_float (\<lambda>v. sc_temperature_update (\<lambda>_. v))),
     (''--whisper-temperature-inc'', set_float (\<lambda>v. sc_temperature_inc_update (\<lambda>_. v))),
     (''--whisper-no-speech-thold'', set_float (\<lambda>v. sc_no_speech_thold_update (\<lambda>_. v))),
     (''--whisper-logprob-thold'', set_float (\<lambda>v. sc_logprob_thold_update (\<lambda>_. v)))]"

section \<open>The usage text\<close>

definition usage_options :: string where
  "usage_options = '' [--model path] [--bind address] [--port N]''
     @ '' [--auth-token TOKEN]''
     @ '' [--auth-api-url URL] [--auth-api-secret SECRET]''
     @ '' [--auth-cache-ttl N] [--auth-api-timeout N]''
     @ '' [--cert cert.pem] [--key key.pem]''
     @ '' [--max-connections N] [--max-connections-per-ip N]''
     @ '' [--whisper-beam-size N] [--whisper-threads N]''
     @ '' [--max-concurrent-inference N] [--model-cache-ttl N]''
     @ '' [--whisper-initial-prompt TEXT] [--session-timeout-sec N] [--shutdown-timeout-sec N]''
     @ '' [--env-file path]''"

definition printUsage :: "string \<Rightarrow> string" where
  "printUsage binary = concat (map (\<lambda>l. l @ [CHR 0x0A])
    [''Usage: '' @ binary @ usage_options,
     ''All options can also be set via environment variables (or a .env file):'',
     ''  MODEL_PATH, BIND_ADDRESS, PORT,'',
     ''  AUTH_TOKEN, AUTH_API_URL, AUTH_API_SECRET, AUTH_CACHE_TTL, AUTH_API_TIMEOUT,'',
     ''  TLS_CERT, TLS_KEY, MAX_CONNECTIONS, MAX_CONNECTIONS_PER_IP,'',
     ''  WHISPER_BEAM_SIZE, WHISPER_THREADS, MAX_CONCURRENT_INFERENCE,'',
     ''  MODEL_CACHE_TTL, WHISPER_INITIAL_PROMPT, SESSION_TIMEOUT_SEC, SHUTDOWN_TIMEOUT_SEC,'',
     ''  WHISPER_TEMPERATURE, WHISPER_TEMPERATURE_INC,'',
     ''  WHISPER_NO_SPEECH_THOLD, WHISPER_LOGPROB_THOLD'',
     ''CLI arguments override environment variables.''])"

text \<open>The words that follow an opening bracket.\<close>

fun bracketed :: "string \<Rightarrow> string list" where
  "bracketed [] = []"
| "bracketed (c # cs) = (if c = CHR ''['' then takeWhile (\<lambda>x. x \<noteq> CHR '' '') cs # bracketed cs else bracketed cs)"

text \<open>The usage names no option that does not exist, and omits four that do.\<close>

lemma usage_omits_options:
  "filter (\<lambda>n. n \<notin> set (bracketed usage_options)) (map fst options)
     = [''--whisper-temperature'', ''--whisper-temperature-inc'', ''--whisper-no-speech-thold'', ''--whisper-logprob-thold'']"
  "set (bracketed usage_options) \<subseteq> set (map fst options)"
proof -
  have b: "bracketed usage_options = [''--model'', ''--bind'', ''--port'', ''--auth-token'', ''--auth-api-url'',
      ''--auth-api-secret'', ''--auth-cache-ttl'', ''--auth-api-timeout'', ''--cert'', ''--key'', ''--max-connections'',
      ''--max-connections-per-ip'', ''--whisper-beam-size'', ''--whisper-threads'', ''--max-concurrent-inference'',
      ''--model-cache-ttl'', ''--whisper-initial-prompt'', ''--session-timeout-sec'', ''--shutdown-timeout-sec'', ''--env-file'']"
    by (simp add: usage_options_def)
  show "filter (\<lambda>n. n \<notin> set (bracketed usage_options)) (map fst options)
      = [''--whisper-temperature'', ''--whisper-temperature-inc'', ''--whisper-no-speech-thold'', ''--whisper-logprob-thold'']"
    unfolding b by (simp add: options_def)
  show "set (bracketed usage_options) \<subseteq> set (map fst options)" unfolding b by (simp add: options_def)
qed

section \<open>The parser\<close>

text \<open>The outcome of the parser: the process exits with a code, an exception leaves it, or a configuration.\<close>

datatype args_outcome = Exit int | Threw exn | Parsed server_config

definition base_model :: string where
  "base_model = ''third_party/whisper.cpp/models/ggml-base.bin''"

definition parse_single :: "string \<Rightarrow> server_config \<Rightarrow> server_config option" where
  "parse_single arg c =
     (if arg = ''--thread-safe'' then Some c
      else if take 2 arg \<noteq> ''--'' \<and> sc_model_path c = base_model then Some (c\<lparr>sc_model_path := arg\<rparr>)
      else None)"

fun parse_loop :: "string list \<Rightarrow> server_config \<Rightarrow> args_outcome" where
  "parse_loop [] c = Parsed c"
| "parse_loop [arg] c =
     (if arg = ''--help'' then Exit 0
      else case parse_single arg c of None \<Rightarrow> Exit 1 | Some c' \<Rightarrow> Parsed c')"
| "parse_loop (arg # v # rest) c =
     (if arg = ''--help'' then Exit 0
      else case map_of options arg of
             Some f \<Rightarrow> (case f v c of Inl x \<Rightarrow> Threw x | Inr c' \<Rightarrow> parse_loop rest c')
           | None \<Rightarrow> (case parse_single arg c of None \<Rightarrow> Exit 1 | Some c' \<Rightarrow> parse_loop (v # rest) c'))"

definition parseArgs :: "environment \<Rightarrow> string list \<Rightarrow> args_outcome" where
  "parseArgs e args = (case configFromEnv e of Inl x \<Rightarrow> Threw x | Inr c \<Rightarrow> parse_loop args c)"

section \<open>Lemmas\<close>

text \<open>The assignments of a file, in the order of its lines.\<close>

fun assignments :: "string list \<Rightarrow> (string \<times> string) list" where
  "assignments [] = []"
| "assignments (l # ls) = (case dotenv_line l of None \<Rightarrow> assignments ls | Some kv \<Rightarrow> kv # assignments ls)"

lemma load_lines_value:
  "load_lines ls e k =
     (case e k of Some v \<Rightarrow> Some v
      | None \<Rightarrow> if k = [] then None else map_of (assignments ls) k)"
proof (induction ls arbitrary: e)
  case (Cons l ls)
  show ?case
  proof (cases "dotenv_line l")
    case None
    with Cons show ?thesis by (simp split: option.split)
  next
    case (Some p)
    then show ?thesis using Cons
      by (cases p) (auto simp: set_if_unset_def split: option.split)
  qed
qed (simp split: option.split)

text \<open>What the setters keep: ports fit into 16 bits.\<close>

definition port_ok :: "server_config \<Rightarrow> bool" where
  "port_ok c \<longleftrightarrow> sc_port c < 2 ^ 16"

definition keeps_port :: "setter \<Rightarrow> bool" where
  "keeps_port f \<longleftrightarrow> (\<forall>v c c'. port_ok c \<longrightarrow> f v c = Inr c' \<longrightarrow> port_ok c')"

lemma keeps_port_generic [simp]:
  "(\<And>v c. sc_port (upd v c) = sc_port c) \<Longrightarrow> keeps_port (set_string upd)"
  "(\<And>i c. sc_port (updi i c) = sc_port c) \<Longrightarrow> keeps_port (set_int updi)"
  "(\<And>n c. sc_port (updn n c) = sc_port c) \<Longrightarrow> keeps_port (set_size updn)"
  "(\<And>f c. sc_port (updf f c) = sc_port c) \<Longrightarrow> keeps_port (set_float updf)"
  "keeps_port set_port"
  by (auto simp: keeps_port_def port_ok_def set_string_def set_int_def set_size_def set_float_def set_port_def
      bind_result_eq_Inr)

lemma apply_env_port:
  "\<forall>(k, f) \<in> set vs. keeps_port f \<Longrightarrow> port_ok c \<Longrightarrow> apply_env vs e c = Inr c' \<Longrightarrow> port_ok c'"
proof (induction vs arbitrary: c)
  case (Cons p vs)
  then show ?case by (cases p) (auto simp: Let_def keeps_port_def split: if_splits sum.splits)
qed simp

lemma parse_loop_port:
  "port_ok c \<Longrightarrow> parse_loop args c = Parsed c' \<Longrightarrow> port_ok c'"
proof (induction args c rule: parse_loop.induct)
  case (3 arg v rest c)
  have opts: "keeps_port f" if "map_of options arg = Some f" for f
    using map_of_SomeD [OF that] by (auto simp: options_def)
  have single: "port_ok c2" if "parse_single arg c = Some c2" for c2
    using that 3(3) by (auto simp: parse_single_def port_ok_def split: if_splits)
  show ?case using 3 opts single by (auto simp: keeps_port_def split: if_splits option.splits sum.splits)
qed (auto simp: parse_single_def port_ok_def split: if_splits option.splits)

lemma configFromEnv_port: "configFromEnv e = Inr c \<Longrightarrow> port_ok c"
  by (rule apply_env_port [of env_vars default_config e])
    (simp_all add: env_vars_def configFromEnv_def default_config_def port_ok_def)

text \<open>A variable that is not set leaves the field it sets as it was.\<close>

lemma apply_env_model:
  assumes "\<forall>(k, f) \<in> set vs. k = ''MODEL_PATH'' \<or> (\<forall>v c c'. f v c = Inr c' \<longrightarrow> sc_model_path c' = sc_model_path c)"
    and "env_get e ''MODEL_PATH'' = []" and "apply_env vs e c = Inr c'"
  shows "sc_model_path c' = sc_model_path c"
  using assms
proof (induction vs arbitrary: c)
  case (Cons p vs)
  then show ?case by (cases p) (auto simp: Let_def split: if_splits sum.splits)
qed simp

lemma configFromEnv_model:
  assumes "env_get e ''MODEL_PATH'' = []" and "configFromEnv e = Inr c"
  shows "sc_model_path c = sc_model_path default_config"
proof -
  have "\<forall>(k, f) \<in> set env_vars. k = ''MODEL_PATH'' \<or>
      (\<forall>v c c'. f v c = Inr c' \<longrightarrow> sc_model_path c' = sc_model_path c)"
    by (simp add: env_vars_def set_string_def set_int_def set_size_def set_float_def set_port_def bind_result_eq_Inr)
      auto
  from apply_env_model [OF this assms(1)] assms(2) show ?thesis by (simp add: configFromEnv_def)
qed

section \<open>Properties\<close>

text \<open>C40: The \<open>.env\<close> file never overrides the environment, and of several assignments of one name in
  the file the first one counts; lines without a name, comments and lines without an equals
  sign set nothing.\<close>

theorem dotenv_fills_in_only:
  "loadDotEnv (Some text) e k =
     (case e k of Some v \<Rightarrow> Some v
      | None \<Rightarrow> if k = [] then None else map_of (assignments (getlines text)) k)"
  by (simp add: loadDotEnv_def load_lines_value)

lemma configFromEnv_empty: "configFromEnv Map.empty = Inr default_config"
  by (simp add: configFromEnv_def env_vars_def env_get_def)

text \<open>Without \<open>MODEL_PATH\<close> in the environment a model path given as a plain argument is never
  accepted: the parser compares the current path with the old default \<open>ggml-base.bin\<close>, while
  the default is \<open>ggml-small.bin\<close>, so the server prints its usage and exits with 1.\<close>

theorem plain_model_argument_rejected:
  assumes "env_get e ''MODEL_PATH'' = []" and "configFromEnv e = Inr c" and "take 2 arg \<noteq> ''--''"
  shows "parseArgs e [arg] = Exit 1"
proof -
  have "sc_model_path c \<noteq> base_model"
    using configFromEnv_model [OF assms(1,2)] by (simp add: default_config_def base_model_def)
  moreover have "arg \<noteq> ''--help''" "arg \<noteq> ''--thread-safe''" using assms(3) by auto
  ultimately show ?thesis using assms(2) by (simp add: parseArgs_def parse_single_def)
qed

theorem plain_model_argument_rejected_witness:
  "parseArgs Map.empty [''model.bin''] = Exit 1"
  by (rule plain_model_argument_rejected [OF _ configFromEnv_empty]) (simp_all add: env_get_def)

text \<open>Whatever the environment and the arguments, the port of a parsed configuration fits 16 bits;
  a larger number is not rejected but truncated, and the value read is the one printed.\<close>

theorem port_truncated:
  assumes "configFromEnv e = Inr c" and "n < 2 ^ 64"
  shows "parseArgs e [''--port'', to_string_nat n] = Parsed (c\<lparr>sc_port := n mod 2 ^ 16\<rparr>)
    \<and> (\<forall>args c'. parseArgs e args = Parsed c' \<longrightarrow> sc_port c' < 2 ^ 16)"
proof -
  have "map_of options ''--port'' = Some set_port" by (simp add: options_def)
  then have "parseArgs e [''--port'', to_string_nat n] = Parsed (c\<lparr>sc_port := n mod 2 ^ 16\<rparr>)"
    using assms by (simp add: parseArgs_def set_port_def set_size_def stoul_to_string)
  moreover have "sc_port c' < 2 ^ 16" if "parseArgs e args = Parsed c'" for args c'
    using parse_loop_port [of c args c'] configFromEnv_port [OF assms(1)] assms(1) that
    by (simp add: parseArgs_def port_ok_def)
  ultimately show ?thesis by blast
qed

theorem port_truncated_witness:
  "parseArgs Map.empty [''--port'', to_string_nat 74537] = Parsed (default_config\<lparr>sc_port := 9001\<rparr>)"
  using port_truncated [OF configFromEnv_empty, of 74537] by simp

end
