(* ===== verification/Server.thy ===== *)
theory Server
  imports Session_Protocol Connection_Limiter Config
begin

text \<open>
  \<open>src/server.cpp\<close> without the argument parser (\<open>Config\<close>), and \<open>src/server/SessionTracker.h\<close>:
  the start of \<open>main\<close> and the objects it sets up, the plain HTTP routes, a turn of the accept
  loop and the shutdown. The process as a whole is in \<open>Server_Process\<close>.
\<close>

section \<open>Set-up\<close>

definition use_ssl :: "server_config \<Rightarrow> bool" where
  "use_ssl c \<longleftrightarrow> sc_cert_path c \<noteq> [] \<and> sc_key_path c \<noteq> []"

definition auth_config_of :: "server_config \<Rightarrow> api_auth_config" where
  "auth_config_of c = \<lparr>api_base_url = sc_auth_api_url c, api_secret_key = sc_auth_api_secret c,
     timeout_seconds = sc_auth_api_timeout c, cache_ttl_seconds = sc_auth_cache_ttl c,
     static_token = sc_auth_token c\<rparr>"

definition session_config_of :: "server_config \<Rightarrow> session_config" where
  "session_config_of c = \<lparr>cfg_model_path = sc_model_path c, cfg_beam_size = sc_beam_size c,
     cfg_threads = sc_threads c, cfg_prompt = sc_initial_prompt c, cfg_timeout_sec = sc_session_timeout_sec c,
     cfg_temperature = sc_temperature c, cfg_temperature_inc = sc_temperature_inc c,
     cfg_no_speech_thold = sc_no_speech_thold c, cfg_logprob_thold = sc_logprob_thold c\<rparr>"

definition boot_world :: "server_config \<Rightarrow> world" where
  "boot_world c = \<lparr>w_auth = new_auth_manager (auth_config_of c),
     w_cache = configure (sc_model_cache_ttl c) new_cache,
     w_inf = setMaxConcurrency (sc_max_concurrent_inference c) new_inference_limiter\<rparr>"

definition boot_limiter :: "server_config \<Rightarrow> connection_limiter" where
  "boot_limiter c = new_limiter (sc_max_connections c) (sc_max_connections_per_ip c)"

text \<open>What the log says about authentication at start-up.\<close>

definition auth_log_line :: "server_config \<Rightarrow> string" where
  "auth_log_line c =
     (if sc_auth_api_url c \<noteq> []
      then ''Auth:    API '' @ sc_auth_api_url c @ ''  cache='' @ to_string_int (sc_auth_cache_ttl c) @ ''s''
             @ ''  timeout='' @ to_string_int (sc_auth_api_timeout c) @ ''s''
      else ''Auth:    disabled'')"

text \<open>\<open>std::to_string\<close> on a \<open>float\<close>: six decimals, rounded to nearest even from the exact value.\<close>

fun to_string_float :: "float32 \<Rightarrow> string" where
  "to_string_float FNan = ''nan''"
| "to_string_float (FInf neg) = (if neg then ''-inf'' else ''inf'')"
| "to_string_float (FNum q) =
     (let n = nat (rne (\<bar>q\<bar> * 1000000))
      in (if q < 0 then ''-'' else []) @ to_string_nat (n div 1000000) @ ''.'' @ pad_left 6 (to_string_nat (n mod 1000000)))"

text \<open>The lines \<open>main\<close> logs about the configuration.\<close>

definition config_log :: "server_config \<Rightarrow> string list" where
  "config_log c =
     [''Model:   '' @ sc_model_path c,
      ''Bind:    '' @ sc_bind_address c @ '':'' @ to_string_nat (sc_port c),
      ''SSL:     '' @ (if use_ssl c then ''enabled'' else ''disabled''),
      auth_log_line c,
      ''Limits:  '' @ to_string_nat (sc_max_connections c) @ '' total, ''
        @ to_string_nat (sc_max_connections_per_ip c) @ '' per IP'',
      ''Whisper: beam_size='' @ to_string_int (sc_beam_size c) @ ''  threads='' @ to_string_int (sc_threads c)
        @ ''  max_concurrent='' @ to_string_int (sc_max_concurrent_inference c)
        @ ''  cache_ttl='' @ to_string_int (sc_model_cache_ttl c) @ ''s'',
      ''Whisper: temperature='' @ to_string_float (sc_temperature c)
        @ ''  temperature_inc='' @ to_string_float (sc_temperature_inc c)
        @ ''  no_speech_thold='' @ to_string_float (sc_no_speech_thold c)
        @ ''  logprob_thold='' @ to_string_float (sc_logprob_thold c)]
     @ (if sc_initial_prompt c \<noteq> []
        then [''Whisper: initial_prompt='' @ [CHR 0x22] @ sc_initial_prompt c @ [CHR 0x22]] else [])"

text \<open>The line it logs when the acceptor is open.\<close>

definition listen_log :: "server_config \<Rightarrow> string" where
  "listen_log c = ''Listening on '' @ (if use_ssl c then ''wss'' else ''ws'') @ ''://''
     @ sc_bind_address c @ '':'' @ to_string_nat (sc_port c)"

text \<open>
  The start of \<open>main\<close> up to the open acceptor. The file system, the loading of the certificate
  and the key, and the binding of the address are parameters. A certificate that cannot be
  loaded ends \<open>main\<close> there; any exception is caught at its end; both give the exit code 1.
  In between it logs \<open>config_log\<close> and makes the objects of \<open>boot_world\<close> and \<open>boot_limiter\<close>.
\<close>

datatype startup = Exited int | Up server_config

definition main_start :: "environment \<Rightarrow> (string \<Rightarrow> string option) \<Rightarrow> (string \<Rightarrow> string \<Rightarrow> bool)
    \<Rightarrow> (string \<Rightarrow> nat \<Rightarrow> bool) \<Rightarrow> string list \<Rightarrow> startup" where
  "main_start env read_file loads_tls binds args =
     (case parseArgs (loadDotEnv (read_file (extractEnvFile args)) env) args of
        Exit code \<Rightarrow> Exited code
      | Threw x \<Rightarrow> Exited 1
      | Parsed c \<Rightarrow>
          if use_ssl c \<and> \<not> loads_tls (sc_cert_path c) (sc_key_path c) then Exited 1
          else if \<not> binds (sc_bind_address c) (sc_port c) then Exited 1
          else Up c)"

section \<open>The plain HTTP routes\<close>

record http_response =
  rs_status :: int
  rs_type :: string
  rs_body :: string

definition metrics_body :: "world \<Rightarrow> connection_limiter \<Rightarrow> string" where
  "metrics_body w cl =
     ''# HELP transcription_active_inferences Number of concurrent inferences'' @ [CHR 0x0A] @
     ''# TYPE transcription_active_inferences gauge'' @ [CHR 0x0A] @ inf_getMetrics (w_inf w) @
     ''# HELP transcription_model_loaded Whether the model is currently in memory (1=yes, 0=no)'' @ [CHR 0x0A] @
     ''# TYPE transcription_model_loaded gauge'' @ [CHR 0x0A] @ cache_getMetrics (w_cache w) @
     ''# HELP transcription_active_connections Number of active WebSocket connections'' @ [CHR 0x0A] @
     ''# TYPE transcription_active_connections gauge'' @ [CHR 0x0A] @ conn_getMetrics cl"

definition json_status :: "string \<Rightarrow> string" where
  "json_status s = CHR ''{'' # CHR 0x22 # ''status'' @ [CHR 0x22] @ '': '' @ [CHR 0x22] @ s @ [CHR 0x22] @ ''}''"

definition handle_http_request :: "string \<Rightarrow> world \<Rightarrow> connection_limiter \<Rightarrow> http_response option" where
  "handle_http_request target w cl =
     (if target = ''/metrics'' then
        Some \<lparr>rs_status = 200, rs_type = ''text/plain; version=0.0.4'', rs_body = metrics_body w cl\<rparr>
      else if target = ''/health'' then
        Some \<lparr>rs_status = 200, rs_type = ''application/json'', rs_body = json_status ''ok''\<rparr>
      else if target = ''/ready'' then
        (let is_busy = \<not> hasCapacity (w_inf w)
         in Some \<lparr>rs_status = (if is_busy then 503 else 200), rs_type = ''application/json'',
                  rs_body = json_status (if is_busy then ''busy'' else ''ready'')\<rparr>)
      else None)"

section \<open>The accept loop\<close>

text \<open>
  One turn: \<open>accept\<close> fails, or a socket arrives whose remote address can be read or not, and
  the thread for it can be started or not. An exception that leaves the loop destroys the
  vector of session threads and the thread of the \<open>io_context\<close> while they are joinable, which
  ends the process (\<open>std::terminate\<close>).
\<close>

datatype accept_error = Operation_Aborted | Interrupted | Other_Error

datatype accept_event =
    Failed accept_error
  | Arrived "string result" bool \<comment> \<open>the remote address, and whether the thread starts\<close>

datatype turn_outcome = Next | Leave | Terminate

record server =
  srv_limiter :: connection_limiter
  srv_threads :: "string list" \<comment> \<open>\<open>session_threads\<close>, by client address\<close>

definition accept_turn :: "accept_event \<Rightarrow> server \<Rightarrow> turn_outcome \<times> server" where
  "accept_turn ev sv = (case ev of
       Failed err \<Rightarrow> ((if err = Other_Error then Next else Leave), sv)
     | Arrived (Inl x) starts \<Rightarrow> (Terminate, sv)
     | Arrived (Inr ip) starts \<Rightarrow>
         (case tryAcquire ip (srv_limiter sv) of
            (False, l) \<Rightarrow> (Next, sv\<lparr>srv_limiter := l\<rparr>)
          | (True, l) \<Rightarrow>
              (if starts then (Next, sv\<lparr>srv_limiter := l, srv_threads := srv_threads sv @ [ip]\<rparr>)
               else (Next, sv\<lparr>srv_limiter := conn_release ip l\<rparr>))))"

section \<open>Shutdown\<close>

text \<open>\<open>SessionTracker\<close>: the sessions by number; \<open>shutdownAll\<close> cancels the sockets of all of them.\<close>

type_synonym tracker = "nat set"

definition tracker_add :: "nat \<Rightarrow> tracker \<Rightarrow> tracker" where
  "tracker_add i T = insert i T"

definition tracker_remove :: "nat \<Rightarrow> tracker \<Rightarrow> tracker" where
  "tracker_remove i T = T - {i}"

text \<open>
  \<open>StreamingSession::shutdown\<close> cancels the socket of the session. The session only uses blocking
  operations; whether a cancel ends those is up to the library (\<open>cancel_blocking\<close>).
\<close>

definition shutdown :: "deps \<Rightarrow> session \<Rightarrow> session" where
  "shutdown d s = (if cancel_blocking d then s\<lparr>ws_link := False\<rparr> else s)"

definition shutdownAll :: "deps \<Rightarrow> tracker \<Rightarrow> (nat \<Rightarrow> session) \<Rightarrow> nat \<Rightarrow> session" where
  "shutdownAll d T ss i = (if i \<in> T then shutdown d (ss i) else ss i)"

text \<open>
  The end of \<open>main\<close>: it joins the threads, and the watchdog, which looks every 100 ms, exits
  with 0 once the deadline has passed. \<open>ends\<close> are the times, in ms after the start of the
  watchdog, at which the session threads end (\<open>None\<close>: never).
\<close>

datatype exit_status = Graceful | Forced

definition all_joined_at :: "int option list \<Rightarrow> int option" where
  "all_joined_at ends = (if None \<in> set ends then None else Some (fold max (map the ends) 0))"

definition shutdown_outcome :: "server_config \<Rightarrow> int option list \<Rightarrow> exit_status" where
  "shutdown_outcome c ends = (case all_joined_at ends of
       None \<Rightarrow> Forced
     | Some t \<Rightarrow> if t < 1000 * sc_shutdown_timeout_sec c then Graceful else Forced)"

section \<open>Lemmas: slots\<close>

text \<open>A turn changes the limiter as one attempt, undone when no thread could be started.\<close>

lemma accept_turn_cases:
  obtains (unchanged) out where "accept_turn ev sv = (out, sv)"
  | (refused) ip l where "tryAcquire ip (srv_limiter sv) = (False, l)" "accept_turn ev sv = (Next, sv\<lparr>srv_limiter := l\<rparr>)"
  | (spawned) ip l where "tryAcquire ip (srv_limiter sv) = (True, l)"
      "accept_turn ev sv = (Next, sv\<lparr>srv_limiter := l, srv_threads := srv_threads sv @ [ip]\<rparr>)"
  | (undone) ip l where "tryAcquire ip (srv_limiter sv) = (True, l)"
      "accept_turn ev sv = (Next, sv\<lparr>srv_limiter := conn_release ip l\<rparr>)"
proof (cases ev)
  case (Failed err)
  then show thesis by (intro unchanged [of "if err = Other_Error then Next else Leave"]) (simp add: accept_turn_def)
next
  case (Arrived r starts)
  show thesis
  proof (cases r)
    case (Inl x)
    then show thesis by (intro unchanged [of Terminate]) (simp add: accept_turn_def Arrived)
  next
    case (Inr ip)
    obtain b l where a: "tryAcquire ip (srv_limiter sv) = (b, l)" by fastforce
    show thesis
    proof (cases b)
      case False
      then show thesis using a by (intro refused [of ip l]) (simp_all add: accept_turn_def Arrived Inr)
    next
      case True
      then show thesis using a
        by (cases starts; intro spawned [of ip l] undone [of ip l]) (simp_all add: accept_turn_def Arrived Inr)
    qed
  qed
qed

lemma represents_granted:
  assumes "represents l M" and "tryAcquire ip l = (True, l')"
  shows "represents l' (add_mset ip M)" "max_total l' = max_total l" "max_per_ip l' = max_per_ip l"
  using represents_tryAcquire [OF assms] tryAcquire_caps [of ip l] assms(2)
  by (auto simp: abs_acquire_def split: if_splits)

lemma represents_refused:
  assumes "represents l M" and "tryAcquire ip l = (False, l')"
  shows "represents l' M" "max_total l' = max_total l" "max_per_ip l' = max_per_ip l"
  using represents_tryAcquire [OF assms] tryAcquire_caps [of ip l] assms(2)
  by (auto simp: abs_acquire_def split: if_splits)

section \<open>Lemmas: start-up\<close>

lemma parse_loop_exit: "parse_loop args c = Exit n \<Longrightarrow> n = 1 \<or> n = 0 \<and> ''--help'' \<in> set args"
  by (induction args c rule: parse_loop.induct) (auto split: if_splits option.splits sum.splits)

section \<open>Properties\<close>

text \<open>How the server comes up or does not: \<open>main\<close> exits with 0 only when asked for help, otherwise
  with 1; it comes up with the configuration that was parsed, the address bound and, when both a
  certificate and a key are given, these loaded. Given one of the two it comes up without TLS.\<close>

theorem startup_outcome:
  assumes "main_start env read_file loads_tls binds args = r"
  shows "(\<forall>n. r = Exited n \<longrightarrow> n = 1 \<or> n = 0 \<and> ''--help'' \<in> set args)
    \<and> (\<forall>c. r = Up c \<longrightarrow> parseArgs (loadDotEnv (read_file (extractEnvFile args)) env) args = Parsed c
         \<and> binds (sc_bind_address c) (sc_port c)
         \<and> (sc_cert_path c = [] \<or> sc_key_path c = [] \<or> loads_tls (sc_cert_path c) (sc_key_path c)))"
proof (cases "parseArgs (loadDotEnv (read_file (extractEnvFile args)) env) args")
  case (Exit n)
  then have "n = 1 \<or> n = 0 \<and> ''--help'' \<in> set args"
    using parse_loop_exit by (auto simp: parseArgs_def split: sum.splits)
  then show ?thesis using Exit assms by (auto simp: main_start_def)
qed (use assms in \<open>auto simp: main_start_def use_ssl_def split: if_splits\<close>)

theorem startup_outcome_witness:
  "\<exists>c. main_start Map.empty (\<lambda>_. None) (\<lambda>_ _. False) (\<lambda>_ _. True) [''--cert'', ''c.pem''] = Up c
    \<and> sc_cert_path c = ''c.pem'' \<and> sc_key_path c = []"
proof -
  have "parseArgs Map.empty [''--cert'', ''c.pem''] = Parsed (default_config\<lparr>sc_cert_path := ''c.pem''\<rparr>)"
    by (simp add: parseArgs_def configFromEnv_empty options_def set_string_def)
  then obtain c where c: "main_start Map.empty (\<lambda>_. None) (\<lambda>_ _. False) (\<lambda>_ _. True) [''--cert'', ''c.pem''] = Up c"
    by (simp add: main_start_def loadDotEnv_def use_ssl_def default_config_def)
  with startup_outcome [OF this] show ?thesis
    by (auto simp: loadDotEnv_def parseArgs_def configFromEnv_empty options_def set_string_def default_config_def)
qed

end
