(* ===== verification/Server_Process.thy ===== *)
theory Server_Process
  imports Server
begin

text \<open>
  The whole process: \<open>main\<close> of \<open>src/server.cpp\<close> with its accept loop, signal handler and
  shutdown, a thread \<open>handleSession\<close> for every client, with the two threads of its session
  once it is upgraded, and the unload timers of the model cache, all interleaved on the shared
  authentication manager, model cache, inference limiter, connection limiter and tracker.
\<close>

section \<open>A client thread\<close>

text \<open>
  A thread reads the HTTP request, answers a plain route or upgrades to a session, and drops its
  guard when it leaves. The address is the one its guard holds.
\<close>

datatype client = Requesting string | Serving string sess_sys | Leaving string

fun client_ip :: "client \<Rightarrow> string" where
  "client_ip (Requesting ip) = ip"
| "client_ip (Serving ip S) = ip"
| "client_ip (Leaving ip) = ip"

record shared =
  sh_world :: world
  sh_limiter :: connection_limiter
  sh_tracker :: tracker

text \<open>
  The steps of client \<open>i\<close>, the body of \<open>handleSession\<close>: \<open>None\<close> is the end of the thread. The
  constructor of the session adds it to the tracker, its destructor removes it, once the flush
  thread is joined, and releases the model if that was not done.
\<close>

inductive client_step :: "deps \<Rightarrow> session_config \<Rightarrow> nat \<Rightarrow> shared \<Rightarrow> client \<Rightarrow> shared \<Rightarrow> client option \<Rightarrow> bool"
  for d cfg i where
  broken: "client_step d cfg i sh (Requesting ip) sh (Some (Leaving ip))"
| plain: "handle_http_request target (sh_world sh) (sh_limiter sh) = Some r \<Longrightarrow>
    client_step d cfg i sh (Requesting ip) sh (Some (Leaving ip))"
| upgrade: "\<lbrakk>handle_http_request target (sh_world sh) (sh_limiter sh) = None; 1000 \<le> dis; dis \<le> 9999\<rbrakk> \<Longrightarrow>
    client_step d cfg i sh (Requesting ip) (sh\<lparr>sh_tracker := tracker_add i (sh_tracker sh)\<rparr>)
      (Some (Serving ip (start_sys (sh_world sh) cfg (generateSessionId ms dis) now)))"
| session: "sys_step d (S\<lparr>sys_w := sh_world sh\<rparr>) S' \<Longrightarrow>
    client_step d cfg i sh (Serving ip S) (sh\<lparr>sh_world := sys_w S'\<rparr>) (Some (Serving ip S'))"
| destroy: "\<lbrakk>reader S = Joined; destroy_session now (sh_world sh) (sys_s S) = (w, s)\<rbrakk> \<Longrightarrow>
    client_step d cfg i sh (Serving ip S)
      (sh\<lparr>sh_world := w, sh_tracker := tracker_remove i (sh_tracker sh)\<rparr>) (Some (Leaving ip))"
| leave: "client_step d cfg i sh (Leaving ip) (sh\<lparr>sh_limiter := guard_destroy (Some ip) (sh_limiter sh)\<rparr>) None"

section \<open>The process\<close>

text \<open>
  Where \<open>main\<close> is: before the test of the accept loop, in \<open>accept\<close>, joining the threads, ended by
  \<open>std::terminate\<close>, on the way out (\<open>main\<close> has returned, or the watchdog has called \<open>std::exit\<close>), or
  past the destructor of the model cache, a static object. The threads that were not joined
  run on until the process is gone; what they do with a destroyed cache is undefined, and
  there is no step after \<open>Ended\<close>.
\<close>

datatype main_pc = Testing | Accepting | Draining | Dead | Exiting exit_status | Ended exit_status

record server_process =
  p_shared :: shared
  p_clients :: "nat \<Rightarrow> client option"
  p_threads :: "string list" \<comment> \<open>\<open>session_threads\<close>, by client address; client \<open>i\<close> is thread \<open>i\<close>\<close>
  p_open :: bool             \<comment> \<open>the acceptor\<close>
  p_main :: main_pc

text \<open>The process runs until the cache is destroyed, or an exception leaves a thread or the accept loop.\<close>

definition running :: "server_process \<Rightarrow> bool" where
  "running P \<longleftrightarrow> p_main P \<in> {Testing, Accepting, Draining, Exiting Graceful, Exiting Forced}
     \<and> (\<forall>i ip S. p_clients P i = Some (Serving ip S) \<longrightarrow> \<not> crashed S)"

text \<open>The handler of a signal: the acceptor is closed and the sockets of all tracked sessions are cancelled.\<close>

definition cancel_clients :: "deps \<Rightarrow> tracker \<Rightarrow> (nat \<Rightarrow> client option) \<Rightarrow> nat \<Rightarrow> client option" where
  "cancel_clients d T M i = (case M i of
       Some (Serving ip S) \<Rightarrow> Some (Serving ip (S\<lparr>sys_s := shutdownAll d T (\<lambda>_. sys_s S) i\<rparr>))
     | c \<Rightarrow> c)"

definition server_of :: "server_process \<Rightarrow> server" where
  "server_of P = \<lparr>srv_limiter = sh_limiter (p_shared P), srv_threads = p_threads P\<rparr>"

definition with_server :: "server_process \<Rightarrow> server \<Rightarrow> server_process" where
  "with_server P sv = P\<lparr>p_shared := (p_shared P)\<lparr>sh_limiter := srv_limiter sv\<rparr>, p_threads := srv_threads sv\<rparr>"

text \<open>
  The steps of \<open>main\<close>: the test of the accept loop; what \<open>accept\<close> gives, with a turn that starts no
  thread or one (an \<open>accept\<close> that was waiting when the acceptor was closed may still give a
  socket); the end of \<open>main\<close> when all threads are joined, or by the watchdog, and then in both
  cases the destructor of the cache. The handler of the signals is waited for once, and is the
  only one to close the acceptor; its thread is stopped before \<open>main\<close> returns. Every step may find
  other answers of the libraries, out of \<open>D\<close>.
\<close>

inductive proc_step :: "deps set \<Rightarrow> session_config \<Rightarrow> server_process \<Rightarrow> server_process \<Rightarrow> bool" for D cfg where
  client: "\<lbrakk>running P; p_clients P i = Some c; d \<in> D; client_step d cfg i (p_shared P) c sh c'\<rbrakk> \<Longrightarrow>
    proc_step D cfg P (P\<lparr>p_shared := sh, p_clients := (p_clients P)(i := c')\<rparr>)"
| test: "\<lbrakk>running P; p_main P = Testing\<rbrakk> \<Longrightarrow>
    proc_step D cfg P (P\<lparr>p_main := (if p_open P then Accepting else Draining)\<rparr>)"
| turn: "\<lbrakk>running P; p_main P = Accepting;
      accept_turn ev (server_of P) = (out, sv); srv_threads sv = p_threads P\<rbrakk> \<Longrightarrow>
    proc_step D cfg P ((with_server P sv)\<lparr>p_main :=
      (case out of Next \<Rightarrow> Testing | Leave \<Rightarrow> Draining | Terminate \<Rightarrow> Dead)\<rparr>)"
| arrive: "\<lbrakk>running P; p_main P = Accepting; accept_turn (Arrived (Inr ip) True) (server_of P) = (out, sv);
      srv_threads sv = p_threads P @ [ip]; p_clients P (length (p_threads P)) = None\<rbrakk> \<Longrightarrow>
    proc_step D cfg P ((with_server P sv)\<lparr>
      p_clients := (p_clients P)(length (p_threads P) \<mapsto> Requesting ip), p_main := Testing\<rparr>)"
| signal: "\<lbrakk>running P; p_open P; p_main P \<noteq> Exiting Graceful; d \<in> D\<rbrakk> \<Longrightarrow>
    proc_step D cfg P (P\<lparr>p_open := False,
      p_clients := cancel_clients d (sh_tracker (p_shared P)) (p_clients P)\<rparr>)"
| timer: "\<lbrakk>running P; t \<in> set (timers (w_cache (sh_world (p_shared P))))\<rbrakk> \<Longrightarrow>
    proc_step D cfg P (P\<lparr>p_shared := (p_shared P)\<lparr>sh_world := (sh_world (p_shared P))
      \<lparr>w_cache := timer_wake ((w_cache (sh_world (p_shared P)))
        \<lparr>timers := remove1 t (timers (w_cache (sh_world (p_shared P))))\<rparr>)\<rparr>\<rparr>\<rparr>)"
| all_joined: "\<lbrakk>running P; p_main P = Draining; p_clients P = (\<lambda>_. None)\<rbrakk> \<Longrightarrow>
    proc_step D cfg P (P\<lparr>p_main := Exiting Graceful\<rparr>)"
| watchdog: "\<lbrakk>running P; p_main P = Draining\<rbrakk> \<Longrightarrow> proc_step D cfg P (P\<lparr>p_main := Exiting Forced\<rparr>)"
| destruct: "\<lbrakk>running P; p_main P = Exiting e\<rbrakk> \<Longrightarrow>
    proc_step D cfg P (P\<lparr>p_shared := (p_shared P)\<lparr>sh_world := (sh_world (p_shared P))
      \<lparr>w_cache := cache_destroy (w_cache (sh_world (p_shared P)))\<rparr>\<rparr>, p_main := Ended e\<rparr>)"

abbreviation proc_steps :: "deps set \<Rightarrow> session_config \<Rightarrow> server_process \<Rightarrow> server_process \<Rightarrow> bool" where
  "proc_steps D cfg \<equiv> (proc_step D cfg)\<^sup>*\<^sup>*"

definition boot_process :: "server_config \<Rightarrow> server_process" where
  "boot_process c = \<lparr>p_shared = \<lparr>sh_world = boot_world c, sh_limiter = boot_limiter c, sh_tracker = {}\<rparr>,
     p_clients = (\<lambda>_. None), p_threads = [], p_open = True, p_main = Testing\<rparr>"

section \<open>What one step of a session does to the shared resources\<close>

text \<open>
  References: the count covers the change of the session's own, and while anybody else holds
  one the model stays.
\<close>

definition cache_effect :: "string \<Rightarrow> model_cache \<Rightarrow> nat \<Rightarrow> model_cache \<Rightarrow> nat \<Rightarrow> bool" where
  "cache_effect path c a c' a' \<longleftrightarrow> cache_ok path c'
     \<and> int a' - int a \<le> ref_count c' - ref_count c
     \<and> (int a < ref_count c \<longrightarrow> ctx c' = ctx c)"

lemma cache_effect_same: "cache_ok path c \<Longrightarrow> a' \<le> a \<Longrightarrow> cache_effect path c a c a'"
  by (simp add: cache_effect_def)

text \<open>Slots: the counter changes with what the session holds, and grows below the limit only.\<close>

definition slot_effect :: "inference_limiter \<Rightarrow> nat \<Rightarrow> inference_limiter \<Rightarrow> nat \<Rightarrow> bool" where
  "slot_effect l a l' a' \<longleftrightarrow> max_concurrent l' = max_concurrent l
     \<and> active_count l' - int a' = active_count l - int a
     \<and> (active_count l \<le> max_concurrent l \<longrightarrow> active_count l' \<le> max_concurrent l)"

lemma slot_effect_same [simp]: "slot_effect l a l a"
  by (simp add: slot_effect_def)

lemma releaseModel_effect:
  assumes "cache_ok path (w_cache w)" and "model_acquired s \<longrightarrow> 0 < ref_count (w_cache w)"
    and "releaseModel now w s = (w', s')"
  shows "s_config s' = s_config s \<and> \<not> model_acquired s' \<and> w_inf w' = w_inf w
    \<and> cache_effect path (w_cache w) (of_bool (model_acquired s)) (w_cache w') 0"
proof (cases "model_acquired s")
  case True
  then have "ref_count (cache_release now (w_cache w)) = ref_count (w_cache w) - 1"
    using assms(1,2) by (intro ref_count_release) auto
  moreover have "ctx (cache_release now (w_cache w)) = ctx (w_cache w)" if "1 < ref_count (w_cache w)"
    using mcache.rel_live [OF assms(1)] that by simp
  ultimately show ?thesis using True assms cache_ok_release by (auto simp: releaseModel_def cache_effect_def)
next
  case False
  then show ?thesis using assms by (simp add: releaseModel_def cache_effect_same)
qed

lemma sys_inv_cache:
  assumes "sys_inv S" and "\<not> wound_up (reader S)" and "path = cfg_model_path (s_config (sys_s S))"
  shows "cache_ok path (w_cache (sys_w S))" "model_acquired (sys_s S) \<longrightarrow> 0 < ref_count (w_cache (sys_w S))"
  using sys_inv_sess [OF assms(1,2)] assms(3) by (auto simp: sess_inv_def)

lemma refs_held_simps:
  "reader S' = p \<Longrightarrow> (\<forall>v cx. p \<noteq> Installing v cx) \<Longrightarrow> refs_held S' = of_bool (model_acquired (sys_s S'))"
  by (auto simp: refs_held_def split: reader_pc.split)

lemma sys_step_effect:
  assumes "sys_step d S S'" and "sys_inv S" and "cache_ok path (w_cache (sys_w S))"
    and "path = cfg_model_path (s_config (sys_s S))" and "int (slots_held S) \<le> active_count (w_inf (sys_w S))"
  shows "s_config (sys_s S') = s_config (sys_s S)
    \<and> cache_effect path (w_cache (sys_w S)) (refs_held S) (w_cache (sys_w S')) (refs_held S')
    \<and> slot_effect (w_inf (sys_w S)) (slots_held S) (w_inf (sys_w S')) (slots_held S')"
  using assms
proof (induction rule: sys_step.induct)
  case (accept S)
  then have "flusher S = Not_Running" by (simp add: sys_inv_def)
  with accept show ?case by (simp add: cache_effect_same refs_held_def slots_held_def flusher_locks_def)
next
  case (reply S m t0 t1 x w s)
  then show ?case using reply_frame [OF reply(5,3,4)]
    by (auto simp: cache_effect_same refs_held_def slots_held_def flusher_locks_def readable_def)
next
  case (prepare S m msg t0 t1 r w s)
  then show ?case using prepare_frame [OF prepare(5)]
    by (auto simp: cache_effect_same refs_held_def slots_held_def flusher_locks_def readable_def
        split: sum.split option.split)
next
  case (load S vad r c)
  from load(5) load(3) [folded load(6)] show ?case
  proof (cases rule: acquire_cases)
    case (failed x)
    then show ?thesis using load(2)
      by (simp add: cache_effect_def refs_held_def slots_held_def flusher_locks_def)
  next
    case (got cx)
    then show ?thesis using load(2)
      by (auto simp: cache_effect_def refs_held_def slots_held_def flusher_locks_def)
  qed
next
  case (install S vad cx now x s)
  then show ?case using install_frame(1,2) [OF install(4)]
    by (auto simp: cache_effect_same refs_held_def slots_held_def flusher_locks_def split: option.split)
next
  case (audio S now data r s)
  then show ?case using binary_guard_frame [OF audio(3)]
    by (auto simp: cache_effect_same refs_held_def slots_held_def flusher_locks_def readable_def split: option.split)
next
  case (store S pcm now r s)
  then show ?case using store_audio_frame(2,3) [OF store(4)]
    by (auto simp: cache_effect_same refs_held_def slots_held_def flusher_locks_def split: sum.split)
next
  case (collect S x s)
  then have "s = snd (end_collect d (sys_s S))" by simp
  then show ?case using collect end_collect_frame [of d "sys_s S"]
    by (auto simp: cache_effect_same refs_held_def slots_held_def flusher_locks_def)
next
  case (give_back S now w s)
  have "model_acquired (sys_s S) \<longrightarrow> 0 < ref_count (w_cache (sys_w S))"
    using sys_inv_cache [OF give_back(5) _ refl] give_back(2) by simp
  from releaseModel_effect [OF give_back(6) this give_back(4)] give_back(2) show ?case
    by (auto simp: refs_held_def slots_held_def flusher_locks_def)
next
  case (start S now n l)
  then show ?case using flush_start_keeps [OF start(5)]
    by (auto simp: cache_effect_same refs_held_def slots_held_def flusher_locks_def slot_effect_def hasCapacity_def)
next
  case (infer S n r l s)
  then obtain e where e: "s_engine (sys_s S) = Some e" by (auto simp: sys_inv_def flusher_locks_def)
  note f = flush_infer_frame [OF infer(3) e]
  have "1 \<le> active_count (w_inf (sys_w S))" using infer by (simp add: slots_held_def flusher_locks_def)
  then show ?case using infer f
    by (auto simp: cache_effect_same refs_held_def slots_held_def flusher_locks_def slot_effect_def inf_release_def
        split: flush_result.split)
qed (auto simp: cache_effect_same refs_held_def slots_held_def flusher_locks_def readable_def)

section \<open>The clients as a whole\<close>

definition client_refs :: "client \<Rightarrow> nat" where
  "client_refs c = (case c of Serving ip S \<Rightarrow> refs_held S | _ \<Rightarrow> 0)"

definition client_slots :: "client \<Rightarrow> nat" where
  "client_slots c = (case c of Serving ip S \<Rightarrow> slots_held S | _ \<Rightarrow> 0)"

definition ips :: "(nat \<Rightarrow> client option) \<Rightarrow> string multiset" where
  "ips M = image_mset (\<lambda>i. client_ip (the (M i))) (mset_set (dom M))"

lemma ips_empty [simp]: "ips (\<lambda>_. None) = {#}"
  by (simp add: ips_def)

lemma ips_remove:
  assumes "finite (dom M)" and "M i = Some c"
  shows "ips M = add_mset (client_ip c) (ips (M(i := None)))"
proof -
  have "mset_set (dom M) = add_mset i (mset_set (dom M - {i}))"
    using assms by (simp add: mset_set.remove domI)
  moreover have "image_mset (\<lambda>j. client_ip (the (M j))) (mset_set (dom M - {i})) = ips (M(i := None))"
    using assms(1) by (auto simp: ips_def intro!: image_mset_cong)
  ultimately show ?thesis using assms(2) by (simp add: ips_def)
qed

lemma ips_insert:
  assumes "finite (dom M)" and "M i = None"
  shows "ips (M(i \<mapsto> c)) = add_mset (client_ip c) (ips M)"
proof -
  have "(M(i \<mapsto> c))(i := None) = M" using assms(2) by auto
  then show ?thesis using ips_remove [of "M(i \<mapsto> c)" i c] assms(1) by simp
qed

lemma ips_update:
  assumes "finite (dom M)" and "M i = Some c" and "client_ip c' = client_ip c"
  shows "ips (M(i \<mapsto> c')) = ips M"
proof -
  have "(M(i \<mapsto> c'))(i := None) = M(i := None)" by simp
  then show ?thesis using ips_remove [of "M(i \<mapsto> c')" i c'] ips_remove [OF assms(1,2)] assms by simp
qed

lemma size_ips: "finite (dom M) \<Longrightarrow> size (ips M) = card (dom M)"
  by (simp add: ips_def)

section \<open>The invariant\<close>

text \<open>
  Every session keeps its invariants with the shared state of now (\<open>client_ok\<close>); the reference count
  covers what the sessions hold, and the inference limiter counts exactly the inferences of the
  flush threads (\<open>shared_ok\<close>); the connection limiter counts exactly the clients (\<open>conns_ok\<close>), the
  tracker knows exactly the sessions (\<open>tracked\<close>), and all clients are known threads.
\<close>

definition client_ok :: "string \<Rightarrow> world \<Rightarrow> client \<Rightarrow> bool" where
  "client_ok path w c \<longleftrightarrow> (case c of
       Serving ip S \<Rightarrow> cfg_model_path (s_config (sys_s S)) = path \<and> sys_inv (S\<lparr>sys_w := w\<rparr>)
         \<and> flag_inv S
     | _ \<Rightarrow> True)"

definition is_session :: "client \<Rightarrow> bool" where
  "is_session c \<longleftrightarrow> (case c of Serving ip S \<Rightarrow> True | _ \<Rightarrow> False)"

text \<open>Another client is not disturbed.\<close>

lemma sess_inv_other:
  assumes "sess_inv w s" and "model_acquired s \<longrightarrow> ctx (w_cache w') = ctx (w_cache w) \<and> 0 < ref_count (w_cache w')"
    and "cache_ok (cfg_model_path (s_config s)) (w_cache w')"
  shows "sess_inv w' s"
  using assms by (auto simp: sess_inv_def)

lemma client_ok_other:
  assumes "client_ok path w a" and "0 < client_refs a \<longrightarrow> ctx (w_cache w') = ctx (w_cache w) \<and> 0 < ref_count (w_cache w')"
    and "cache_ok path (w_cache w')"
  shows "client_ok path w' a"
proof (cases a)
  case (Serving ip S)
  have i: "sys_inv (S\<lparr>sys_w := w\<rparr>)" "cfg_model_path (s_config (sys_s S)) = path" "flag_inv S"
    using assms(1) by (simp_all add: client_ok_def Serving)
  have h: "0 < refs_held S \<longrightarrow> ctx (w_cache w') = ctx (w_cache w) \<and> 0 < ref_count (w_cache w')"
    using assms(2) by (simp add: client_refs_def Serving)
  have "model_acquired (sys_s S) \<longrightarrow> 0 < refs_held S" by (simp add: refs_held_def)
  moreover have "reader S = Installing v cx \<longrightarrow> 0 < refs_held S" for v cx by (simp add: refs_held_def)
  ultimately have "sys_inv (S\<lparr>sys_w := w'\<rparr>)"
    using i(1,2) h assms(3) sess_inv_other [of w "sys_s S" w']
    by (auto simp: sys_inv_def flusher_locks_def split: if_splits)
  then show ?thesis using i by (simp add: client_ok_def Serving)
qed (simp_all add: client_ok_def)

text \<open>
  The step of client \<open>i\<close> from \<open>a\<close> to \<open>b\<close>, in terms of its effects on the shared state, keeps
  the part of the invariant about model and slots.
\<close>

definition shared_ok :: "server_config \<Rightarrow> world \<Rightarrow> (nat \<Rightarrow> client option) \<Rightarrow> bool" where
  "shared_ok c w M \<longleftrightarrow> cache_ok (sc_model_path c) (w_cache w) \<and> finite (dom M)
     \<and> (\<forall>i a. M i = Some a \<longrightarrow> client_ok (sc_model_path c) w a)
     \<and> int (total_of client_refs M) \<le> ref_count (w_cache w)
     \<and> active_count (w_inf w) = int (total_of client_slots M)
     \<and> active_count (w_inf w) \<le> max_concurrent (w_inf w)
     \<and> max_concurrent (w_inf w) = max_concurrent (w_inf (boot_world c))"

lemma shared_ok_step:
  assumes inv: "shared_ok c w M" and a: "M i = Some a" and b: "client_ok (sc_model_path c) w' b"
    and ce: "cache_effect (sc_model_path c) (w_cache w) (client_refs a) (w_cache w') (client_refs b)"
    and se: "slot_effect (w_inf w) (client_slots a) (w_inf w') (client_slots b)"
  shows "shared_ok c w' (M(i \<mapsto> b))"
proof -
  let ?c = "w_cache w" and ?c' = "w_cache w'" and ?M = "M(i \<mapsto> b)"
  have fin: "finite (dom M)" "finite (dom ?M)" and refs: "int (total_of client_refs M) \<le> ref_count ?c"
    using inv by (simp_all add: shared_ok_def)
  have r': "int (total_of client_refs ?M) \<le> ref_count ?c'"
    using total_of_update [OF fin(1) a, of client_refs b] ce refs by (simp add: cache_effect_def)
  have s': "active_count (w_inf w') = int (total_of client_slots ?M)"
    using total_of_update [OF fin(1) a, of client_slots b] se inv by (simp add: slot_effect_def shared_ok_def)
  have "client_ok (sc_model_path c) w' x" if x: "?M j = Some x" for j x
  proof (cases "j = i")
    case True
    then show ?thesis using b x by simp
  next
    case False
    then have m: "M j = Some x" using x by simp
    have "ctx ?c' = ctx ?c \<and> 0 < ref_count ?c'" if h: "0 < client_refs x"
    proof -
      have "client_refs a + client_refs x \<le> total_of client_refs M"
        using total_of_two [OF fin(1) a m] False by simp
      then have "int (client_refs a) < ref_count ?c" using h refs by linarith
      then have "ctx ?c' = ctx ?c" using ce by (simp add: cache_effect_def)
      moreover have "client_refs x \<le> total_of client_refs ?M" using total_of_member [OF fin(2)] x by blast
      then have "0 < ref_count ?c'" using r' h by linarith
      ultimately show ?thesis ..
    qed
    moreover have "client_ok (sc_model_path c) w x" using inv m by (auto simp: shared_ok_def)
    ultimately show ?thesis using client_ok_other ce by (auto simp: cache_effect_def)
  qed
  then show ?thesis using inv ce se fin r' s' by (auto simp: shared_ok_def cache_effect_def slot_effect_def)
qed

lemma shared_ok_insert:
  assumes "shared_ok c w M" and "M i = None"
  shows "shared_ok c w (M(i \<mapsto> Requesting ip))"
  using assms total_of_insert [of M i client_refs "Requesting ip"] total_of_insert [of M i client_slots "Requesting ip"]
  by (auto simp: shared_ok_def client_ok_def client_refs_def client_slots_def)

lemma shared_ok_remove:
  assumes "shared_ok c w M" and "M i = Some (Leaving ip)"
  shows "shared_ok c w (M(i := None))"
  using assms total_of_remove [of M i "Leaving ip" client_refs] total_of_remove [of M i "Leaving ip" client_slots]
  by (auto simp: shared_ok_def client_refs_def client_slots_def)

lemma shared_ok_cache:
  assumes "shared_ok c w M" and "cache_ok (sc_model_path c) k" and "ref_count k = ref_count (w_cache w)"
    and "0 < ref_count k \<longrightarrow> ctx k = ctx (w_cache w)"
  shows "shared_ok c (w\<lparr>w_cache := k\<rparr>) M"
proof -
  have "client_ok (sc_model_path c) (w\<lparr>w_cache := k\<rparr>) x" if m: "M j = Some x" for j x
  proof (rule client_ok_other [of _ w])
    show "client_ok (sc_model_path c) w x" using assms(1) m by (auto simp: shared_ok_def)
    have "client_refs x \<le> total_of client_refs M" using total_of_member m assms(1) by (auto simp: shared_ok_def)
    then show "0 < client_refs x \<longrightarrow> ctx (w_cache (w\<lparr>w_cache := k\<rparr>)) = ctx (w_cache w) \<and> 0 < ref_count (w_cache (w\<lparr>w_cache := k\<rparr>))"
      using assms by (auto simp: shared_ok_def)
  qed (use assms in simp)
  then show ?thesis using assms by (auto simp: shared_ok_def)
qed

text \<open>The rest of the invariant: the clients, the limiter and the tracker.\<close>

definition conns_ok :: "server_config \<Rightarrow> connection_limiter \<Rightarrow> (nat \<Rightarrow> client option) \<Rightarrow> bool" where
  "conns_ok c l M \<longleftrightarrow> represents l (ips M) \<and> max_total l = sc_max_connections c \<and> max_per_ip l = sc_max_connections_per_ip c"

definition tracked :: "tracker \<Rightarrow> (nat \<Rightarrow> client option) \<Rightarrow> bool" where
  "tracked T M \<longleftrightarrow> T = {i. \<exists>a. M i = Some a \<and> is_session a}"

text \<open>Once \<open>main\<close> has ended, the cache is what its destructor has left of one with the invariant.\<close>

definition ended :: "server_process \<Rightarrow> bool" where
  "ended P \<longleftrightarrow> p_main P \<in> {Ended Graceful, Ended Forced}"

definition proc_inv :: "server_config \<Rightarrow> server_process \<Rightarrow> bool" where
  "proc_inv c P \<longleftrightarrow> (let w = sh_world (p_shared P); M = p_clients P in
     (\<exists>k. shared_ok c (w\<lparr>w_cache := k\<rparr>) M \<and> w_cache w = (if ended P then cache_destroy k else k))
     \<and> conns_ok c (sh_limiter (p_shared P)) M \<and> tracked (sh_tracker (p_shared P)) M
     \<and> dom M \<subseteq> {..<length (p_threads P)}
     \<and> (p_main P \<in> {Exiting Graceful, Ended Graceful} \<longrightarrow> M = (\<lambda>_. None)))"

lemma proc_inv_alt:
  "\<not> ended P \<Longrightarrow> proc_inv c P \<longleftrightarrow> shared_ok c (sh_world (p_shared P)) (p_clients P)
     \<and> conns_ok c (sh_limiter (p_shared P)) (p_clients P) \<and> tracked (sh_tracker (p_shared P)) (p_clients P)
     \<and> dom (p_clients P) \<subseteq> {..<length (p_threads P)}
     \<and> (p_main P = Exiting Graceful \<longrightarrow> p_clients P = (\<lambda>_. None))"
  by (auto simp: proc_inv_def Let_def ended_def)

lemma running_not_ended: "running P \<Longrightarrow> \<not> ended P"
  by (auto simp: running_def ended_def)

lemma client_step_ip: "client_step d cfg i sh a sh' (Some b) \<Longrightarrow> client_ip b = client_ip a"
  by (erule client_step.cases) auto

lemma session_step_shared:
  assumes "shared_ok c w M" and "M i = Some (Serving ip S)" and "sys_step d (S\<lparr>sys_w := w\<rparr>) S'"
  shows "shared_ok c (sys_w S') (M(i \<mapsto> Serving ip S'))"
proof -
  let ?S = "S\<lparr>sys_w := w\<rparr>" and ?path = "sc_model_path c"
  have ok: "client_ok ?path w (Serving ip S)" using assms(1,2) by (auto simp: shared_ok_def)
  then have inv: "sys_inv ?S" "flag_inv ?S" and p: "?path = cfg_model_path (s_config (sys_s ?S))"
    by (simp_all add: client_ok_def flag_inv_def)
  have k: "cache_ok ?path (w_cache (sys_w ?S))" using assms(1) by (simp add: shared_ok_def)
  have held: "slots_held ?S = slots_held S" "refs_held ?S = refs_held S"
    by (simp_all add: slots_held_def refs_held_def flusher_locks_def)
  have "client_slots (Serving ip S) \<le> total_of client_slots M"
    using total_of_member [of M i "Serving ip S" client_slots] assms(1,2) by (simp add: shared_ok_def)
  then have "int (slots_held ?S) \<le> active_count (w_inf (sys_w ?S))"
    using assms(1) by (simp add: shared_ok_def client_slots_def held)
  note e = sys_step_effect [OF assms(3) inv(1) k p this]
  have self: "S'\<lparr>sys_w := sys_w S'\<rparr> = S'" by simp
  show ?thesis
  proof (rule shared_ok_step [OF assms(1,2)])
    show "client_ok ?path (sys_w S') (Serving ip S')"
      using sys_step_inv [OF assms(3) inv(1)] sys_step_flag [OF assms(3) inv] e p by (simp add: client_ok_def)
  qed (use e in \<open>simp_all add: client_refs_def client_slots_def held\<close>)
qed

lemma destroy_shared:
  assumes "shared_ok c w M" and "M i = Some (Serving ip S)" and "reader S = Joined"
    and "destroy_session now w (sys_s S) = (w', s)"
  shows "shared_ok c w' (M(i \<mapsto> Leaving ip))"
proof -
  have ok: "client_ok (sc_model_path c) w (Serving ip S)" using assms(1,2) by (auto simp: shared_ok_def)
  then have n: "\<not> model_acquired (sys_s S)" "flusher S = Not_Running"
    using assms(3) by (auto simp: client_ok_def sys_inv_def flag_inv_def)
  then have "w' = w" using assms(4) by (auto simp: destroy_session_def releaseModel_def)
  moreover have "shared_ok c w (M(i \<mapsto> Leaving ip))"
    by (rule shared_ok_step [OF assms(1,2)])
      (use n assms(1,3) in \<open>auto simp: client_ok_def client_refs_def client_slots_def refs_held_def slots_held_def
        flusher_locks_def cache_effect_same shared_ok_def\<close>)
  ultimately show ?thesis by simp
qed

lemma conns_ok_update:
  assumes "conns_ok c l M" and "finite (dom M)" and "M i = Some a" and "client_ip b = client_ip a"
  shows "conns_ok c l (M(i \<mapsto> b))"
  using assms ips_update [OF assms(2-4)] by (simp add: conns_ok_def)

lemma conns_ok_remove:
  assumes "conns_ok c l M" and "finite (dom M)" and "M i = Some a"
  shows "conns_ok c (conn_release (client_ip a) l) (M(i := None))"
  using assms ips_remove [OF assms(2,3)] represents_release [of l "ips M" "client_ip a"] by (simp add: conns_ok_def)

text \<open>A step that holds nothing before and after.\<close>

lemma shared_ok_idle:
  assumes "shared_ok c w M" and "M i = Some a" and "client_refs a = 0" and "client_slots a = 0"
    and "client_refs b = 0" and "client_slots b = 0" and "client_ok (sc_model_path c) w b"
  shows "shared_ok c w (M(i \<mapsto> b))"
  by (rule shared_ok_step [OF assms(1,2,7)]) (use assms in \<open>auto simp: cache_effect_same shared_ok_def\<close>)

lemmas client_simps = client_refs_def client_slots_def client_ok_def is_session_def

lemma tracked_update:
  "tracked T M \<Longrightarrow> M i = Some a \<Longrightarrow> is_session b = is_session a \<Longrightarrow> tracked T (M(i \<mapsto> b))"
  by (auto simp: tracked_def)

lemma client_step_inv:
  assumes "client_step d (session_config_of c) i sh a sh' b" and "M i = Some a"
    and "shared_ok c (sh_world sh) M" and "conns_ok c (sh_limiter sh) M" and "tracked (sh_tracker sh) M"
  shows "shared_ok c (sh_world sh') (M(i := b)) \<and> conns_ok c (sh_limiter sh') (M(i := b))
    \<and> tracked (sh_tracker sh') (M(i := b))"
  using assms
proof (induction rule: client_step.induct)
  case (broken sh ip)
  then have fin: "finite (dom M)" by (simp add: shared_ok_def)
  show ?case
    by (intro conjI shared_ok_idle [OF broken(2,1)] conns_ok_update [OF broken(3) fin broken(1)]
        tracked_update [OF broken(4,1)]) (simp_all add: client_simps)
next
  case (plain target sh r ip)
  then have fin: "finite (dom M)" by (simp add: shared_ok_def)
  show ?case
    by (intro conjI shared_ok_idle [OF plain(3,2)] conns_ok_update [OF plain(4) fin plain(2)]
        tracked_update [OF plain(5,2)]) (simp_all add: client_simps)
next
  case (upgrade target sh dis ip ms now)
  let ?S = "start_sys (sh_world sh) (session_config_of c) (generateSessionId ms dis) now"
  have fin: "finite (dom M)" and ok: "cache_ok (sc_model_path c) (w_cache (sh_world sh))"
    using upgrade(5) by (simp_all add: shared_ok_def)
  have p: "cfg_model_path (session_config_of c) = sc_model_path c" by (simp add: session_config_of_def)
  have "sys_inv ?S" using ok by (intro start_sys_inv) (simp add: p)
  moreover have "?S\<lparr>sys_w := sh_world sh\<rparr> = ?S" by (simp add: start_sys_def)
  ultimately have "client_ok (sc_model_path c) (sh_world sh) (Serving ip ?S)"
    by (simp add: client_simps flag_inv_def) (simp add: start_sys_def new_session_def p)
  moreover have "refs_held ?S = 0" "slots_held ?S = 0"
    by (simp_all add: start_sys_def refs_held_def slots_held_def flusher_locks_def new_session_def)
  moreover have "tracked (tracker_add i (sh_tracker sh)) (M(i \<mapsto> Serving ip ?S))"
    using upgrade(7) by (auto simp: tracked_def client_simps tracker_add_def)
  ultimately show ?case
    by (intro conjI) (auto simp: client_refs_def client_slots_def
        intro!: shared_ok_idle [OF upgrade(5,4)] conns_ok_update [OF upgrade(6) fin upgrade(4)] simp del: fun_upd_apply)
next
  case (session sh S S' ip)
  then have fin: "finite (dom M)" by (simp add: shared_ok_def)
  show ?case
    using session_step_shared [OF session(3,2,1)] conns_ok_update [OF session(4) fin session(2), of "Serving ip S'"]
      tracked_update [OF session(5,2), of "Serving ip S'"] by (simp add: client_simps del: fun_upd_apply)
next
  case (destroy S now sh w s ip)
  then have fin: "finite (dom M)" by (simp add: shared_ok_def)
  have "tracked (tracker_remove i (sh_tracker sh)) (M(i \<mapsto> Leaving ip))"
    using destroy(6) by (auto simp: tracked_def client_simps tracker_remove_def)
  then show ?case
    using destroy_shared [OF destroy(4,3,1,2)] conns_ok_update [OF destroy(5) fin destroy(3), of "Leaving ip"]
    by (simp del: fun_upd_apply)
next
  case (leave sh ip)
  then have fin: "finite (dom M)" by (simp add: shared_ok_def)
  have "tracked (sh_tracker sh) (M(i := None))" using leave(1,4) by (auto simp: tracked_def client_simps)
  then show ?case
    using shared_ok_remove [OF leave(2,1)] conns_ok_remove [OF leave(3) fin leave(1)]
    by (simp add: guard_destroy_def del: fun_upd_apply)
qed

text \<open>A signal changes nothing the invariant looks at.\<close>

lemma shutdown_frame [simp]:
  "s_config (shutdown d s) = s_config s" "flush_running (shutdown d s) = flush_running s"
  "model_acquired (shutdown d s) = model_acquired s" "sess_inv w (shutdown d s) = sess_inv w s"
  "s_engine (shutdown d s) = s_engine s"
  by (simp_all add: shutdown_def)

definition after_cancel :: "deps \<Rightarrow> tracker \<Rightarrow> nat \<Rightarrow> client \<Rightarrow> client" where
  "after_cancel d T i c = (case c of
       Serving ip S \<Rightarrow> Serving ip (S\<lparr>sys_s := shutdownAll d T (\<lambda>_. sys_s S) i\<rparr>)
     | _ \<Rightarrow> c)"

lemma cancel_clients_eq: "cancel_clients d T M i = map_option (after_cancel d T i) (M i)"
  by (simp add: cancel_clients_def after_cancel_def split: option.split client.split)

lemma after_cancel_frame [simp]:
  "client_ip (after_cancel d T i c) = client_ip c" "client_refs (after_cancel d T i c) = client_refs c"
  "client_slots (after_cancel d T i c) = client_slots c" "is_session (after_cancel d T i c) = is_session c"
  "client_ok path w (after_cancel d T i c) = client_ok path w c"
  by (cases c; simp add: after_cancel_def client_refs_def client_slots_def is_session_def client_ok_def shutdownAll_def
      refs_held_def slots_held_def flusher_locks_def sys_inv_def flag_inv_def)+

lemma dom_cancel [simp]: "dom (cancel_clients d T M) = dom M"
  by (auto simp: cancel_clients_eq)

lemma total_cancel:
  assumes "\<And>i c. h (after_cancel d T i c) = h c"
  shows "total_of h (cancel_clients d T M) = total_of h M"
  unfolding total_of_def dom_cancel by (rule sum.cong) (auto simp: cancel_clients_eq assms)

lemma ips_cancel: "ips (cancel_clients d T M) = ips M"
  unfolding ips_def dom_cancel
proof (rule image_mset_cong)
  fix i assume "i \<in># mset_set (dom M)"
  then have "i \<in> dom M" by (metis elem_mset_set empty_iff mset_set.infinite set_mset_empty)
  then show "client_ip (the (cancel_clients d T M i)) = client_ip (the (M i))" by (auto simp: cancel_clients_eq)
qed

lemma cancel_inv:
  "shared_ok c w (cancel_clients d T M) = shared_ok c w M" "conns_ok c l (cancel_clients d T M) = conns_ok c l M"
  "tracked U (cancel_clients d T M) = tracked U M"
proof -
  show "shared_ok c w (cancel_clients d T M) = shared_ok c w M"
    unfolding shared_ok_def
  proof -
    have "(\<forall>i a. cancel_clients d T M i = Some a \<longrightarrow> client_ok p w a) = (\<forall>i a. M i = Some a \<longrightarrow> client_ok p w a)" for p
      by (auto simp: cancel_clients_eq) (metis after_cancel_frame(5))
    then show "(cache_ok (sc_model_path c) (w_cache w) \<and> finite (dom (cancel_clients d T M))
      \<and> (\<forall>i a. cancel_clients d T M i = Some a \<longrightarrow> client_ok (sc_model_path c) w a)
      \<and> int (total_of client_refs (cancel_clients d T M)) \<le> ref_count (w_cache w)
      \<and> active_count (w_inf w) = int (total_of client_slots (cancel_clients d T M))
      \<and> active_count (w_inf w) \<le> max_concurrent (w_inf w)
      \<and> max_concurrent (w_inf w) = max_concurrent (w_inf (boot_world c)))
    = (cache_ok (sc_model_path c) (w_cache w) \<and> finite (dom M)
      \<and> (\<forall>i a. M i = Some a \<longrightarrow> client_ok (sc_model_path c) w a)
      \<and> int (total_of client_refs M) \<le> ref_count (w_cache w)
      \<and> active_count (w_inf w) = int (total_of client_slots M)
      \<and> active_count (w_inf w) \<le> max_concurrent (w_inf w)
      \<and> max_concurrent (w_inf w) = max_concurrent (w_inf (boot_world c)))"
      by (simp add: total_cancel)
  qed
  show "conns_ok c l (cancel_clients d T M) = conns_ok c l M" by (simp add: conns_ok_def ips_cancel)
  show "tracked U (cancel_clients d T M) = tracked U M"
  proof -
    have "{i. \<exists>a. cancel_clients d T M i = Some a \<and> is_session a} = {i. \<exists>a. M i = Some a \<and> is_session a}"
      by (auto simp: cancel_clients_eq)
    then show ?thesis by (simp add: tracked_def)
  qed
qed

lemma timer_frame:
  assumes "cache_ok path c"
  shows "cache_ok path (timer_wake (c\<lparr>timers := ts\<rparr>))"
    and "0 < ref_count c \<Longrightarrow> ctx (timer_wake (c\<lparr>timers := ts\<rparr>)) = ctx c"
    and "ref_count (timer_wake (c\<lparr>timers := ts\<rparr>)) = ref_count c"
proof -
  have "cache_ok path (c\<lparr>timers := ts\<rparr>)" using assms by (simp add: cache_ok_def)
  then show "cache_ok path (timer_wake (c\<lparr>timers := ts\<rparr>))" by (rule cache_ok_timer)
qed (auto simp: timer_wake_def unloadLocked_def split: option.split)

text \<open>A turn of the accept loop that starts no thread leaves the connections as they are.\<close>

lemma turn_conns:
  assumes "accept_turn ev (server_of P) = (out, sv)" and "srv_threads sv = p_threads P"
    and "conns_ok c (sh_limiter (p_shared P)) M"
  shows "conns_ok c (srv_limiter sv) M"
proof (cases rule: accept_turn_cases [of ev "server_of P"])
  case (unchanged o)
  then have "sv = server_of P" using assms(1) by simp
  then show ?thesis using assms(3) by (simp add: server_of_def)
next
  case (refused ip l)
  then show ?thesis using assms represents_refused [OF _ refused(1)] by (auto simp: conns_ok_def server_of_def)
next
  case (spawned ip l)
  then have "srv_threads sv = p_threads P @ [ip]" using assms(1) by (auto simp: server_of_def)
  then show ?thesis using assms(2) by simp
next
  case (undone ip l)
  then have l: "represents l (add_mset ip (ips M))"
    using represents_granted(1) [OF _ undone(1)] assms(3) by (simp add: conns_ok_def server_of_def)
  from represents_release [OF this, of ip] show ?thesis
    using undone assms represents_granted(2,3) [OF _ undone(1)] by (auto simp: conns_ok_def server_of_def)
qed

lemma arrive_granted:
  assumes "accept_turn (Arrived (Inr ip) True) (server_of P) = (out, sv)" and "srv_threads sv = p_threads P @ [ip]"
  shows "tryAcquire ip (sh_limiter (p_shared P)) = (True, srv_limiter sv)"
  using assms by (auto simp: accept_turn_def server_of_def split: prod.splits bool.splits)

lemma proc_step_inv:
  assumes "proc_step D (session_config_of c) P P'" and "proc_inv c P"
  shows "proc_inv c P'"
proof -
  have "\<not> ended P" using assms(1) by (cases rule: proc_step.cases) (auto dest: running_not_ended)
  note inv = proc_inv_alt [THEN iffD1, OF this assms(2)]
  show ?thesis using assms(1)
  proof (cases rule: proc_step.cases)
    case (client i a d sh b)
    have "\<not> ended P'" using client(1,2) running_not_ended by (simp add: ended_def)
    moreover have "dom (p_clients P') \<subseteq> {..<length (p_threads P')}" using client(1,3) inv by (auto split: if_splits)
    ultimately show ?thesis using client_step_inv [where M = "p_clients P" and i = i, OF client(5,3)] client(1,3) inv
      by (simp add: proc_inv_alt del: dom_fun_upd) auto
  next
    case (turn ev out sv)
    then show ?thesis using turn_conns [OF turn(4,5), of c] inv
      by (simp add: proc_inv_alt ended_def with_server_def split: turn_outcome.split)
  next
    case (arrive ip out sv)
    note g = arrive_granted [OF arrive(4,5)]
    let ?i = "length (p_threads P)"
    have fin: "finite (dom (p_clients P))" using inv by (simp add: shared_ok_def)
    have new: "p_clients P ?i = None" using inv by auto
    have "conns_ok c (srv_limiter sv) ((p_clients P)(?i \<mapsto> Requesting ip))"
      using inv represents_granted [OF _ g] ips_insert [OF fin new, of "Requesting ip"] by (auto simp: conns_ok_def)
    moreover have "tracked (sh_tracker (p_shared P)) ((p_clients P)(?i \<mapsto> Requesting ip))"
      using inv new by (auto simp: tracked_def is_session_def)
    moreover have "dom ((p_clients P)(?i \<mapsto> Requesting ip)) \<subseteq> {..<Suc ?i}" using inv by auto
    ultimately show ?thesis using arrive(1,5) inv shared_ok_insert [of _ _ "p_clients P" ?i, OF _ new]
      by (simp add: proc_inv_alt ended_def with_server_def del: dom_fun_upd fun_upd_apply)
  next
    case (timer t)
    let ?k = "w_cache (sh_world (p_shared P))"
    have "cache_ok (sc_model_path c) ?k" using inv by (simp add: shared_ok_def)
    note f = timer_frame [OF this, of "remove1 t (timers ?k)"]
    have "shared_ok c ((sh_world (p_shared P))\<lparr>w_cache := timer_wake (?k\<lparr>timers := remove1 t (timers ?k)\<rparr>)\<rparr>) (p_clients P)"
      by (rule shared_ok_cache) (use inv f in auto)
    then show ?thesis using timer(1,2) inv running_not_ended by (simp add: proc_inv_alt ended_def)
  next
    case (destruct e)
    then show ?thesis using inv
      by (cases e) (auto simp: proc_inv_def Let_def ended_def intro!: exI [of _ "w_cache (sh_world (p_shared P))"])
  qed (use inv running_not_ended in \<open>auto simp: proc_inv_alt ended_def cancel_inv\<close>)
qed

interpretation proc: step_invariant "proc_step D (session_config_of c)" "proc_inv c"
  by unfold_locales (rule proc_step_inv)

lemma boot_process_inv: "proc_inv c (boot_process c)"
proof -
  have "0 \<le> max_concurrent (w_inf (boot_world c))" "active_count (w_inf (boot_world c)) = 0"
    by (simp_all add: boot_world_def setMaxConcurrency_def new_inference_limiter_def)
  moreover have "cache_ok (sc_model_path c) (w_cache (boot_world c))"
    by (simp add: boot_world_def cache_ok_def configure_def new_cache_def)
  moreover have "0 \<le> ref_count (w_cache (boot_world c))" by (simp add: boot_world_def configure_def new_cache_def)
  moreover have "\<not> ended (boot_process c)" by (simp add: ended_def boot_process_def)
  ultimately show ?thesis using represents_new
    by (simp add: proc_inv_alt shared_ok_def conns_ok_def tracked_def boot_process_def boot_limiter_def)
      (simp add: new_limiter_def)
qed

lemma reachable_inv: "proc_steps D (session_config_of c) (boot_process c) P \<Longrightarrow> proc_inv c P"
  by (rule proc.steps_keep [OF _ boot_process_inv])

end
