(* ===== verification/Server_Runs.thy ===== *)
theory Server_Runs
  imports Server_Process
begin

text \<open>
  Executions of the process: what the threads of a session do, they can do as a client of the
  process; how a client gets in; and the process with one client, up to the configured session.
\<close>

section \<open>Lemmas: executions\<close>

lemma running_serving: "running P \<Longrightarrow> p_clients P i = Some (Serving ip S) \<Longrightarrow> \<not> crashed S"
  by (auto simp: running_def)

lemma sys_steps_crashed: "sys_steps d S S' \<Longrightarrow> \<not> crashed S' \<Longrightarrow> \<not> crashed S"
  using crashed_steps by blast

text \<open>What the two threads of a session do, they can do as a client of the process.\<close>

lemma serve_session_step:
  assumes "running P" and "p_clients P i = Some (Serving ip S)"
    and "sys_step d (S\<lparr>sys_w := sh_world (p_shared P)\<rparr>) S'" and "d \<in> D"
  shows "proc_step D cfg P (P\<lparr>p_shared := (p_shared P)\<lparr>sh_world := sys_w S'\<rparr>,
    p_clients := (p_clients P)(i \<mapsto> Serving ip S')\<rparr>)"
  by (rule proc_step.client [OF assms(1,2,4)]) (rule client_step.session [OF assms(3)])

lemma serve_session_steps:
  assumes "(sys_step d)\<^sup>+\<^sup>+ (S\<lparr>sys_w := sh_world (p_shared P)\<rparr>) S'"
    and "running P" and "p_clients P i = Some (Serving ip S)" and "\<not> crashed S'" and "d \<in> D"
  shows "proc_steps D cfg P (P\<lparr>p_shared := (p_shared P)\<lparr>sh_world := sys_w S'\<rparr>,
    p_clients := (p_clients P)(i \<mapsto> Serving ip S')\<rparr>)"
  using assms(1,4)
proof (induction rule: tranclp_induct)
  case (base T)
  show ?case by (rule r_into_rtranclp) (rule serve_session_step [OF assms(2,3) base(1) assms(5)])
next
  case (step T U)
  let ?P = "P\<lparr>p_shared := (p_shared P)\<lparr>sh_world := sys_w T\<rparr>, p_clients := (p_clients P)(i \<mapsto> Serving ip T)\<rparr>"
  have nc: "\<not> crashed T" using step.hyps(2) step.prems sys_steps_crashed by blast
  then have "running ?P" using assms(2) by (auto simp: running_def)
  from serve_session_step [OF this, of i ip T d U D cfg] step.hyps(2) assms(5)
  have "proc_step D cfg ?P (P\<lparr>p_shared := (p_shared P)\<lparr>sh_world := sys_w U\<rparr>,
      p_clients := (p_clients P)(i \<mapsto> Serving ip U)\<rparr>)" by simp
  with step.IH [OF nc] show ?case by (rule rtranclp.rtrancl_into_rtrancl)
qed

text \<open>A client that gets in.\<close>

definition client_in :: "string \<Rightarrow> connection_limiter \<Rightarrow> server_process \<Rightarrow> server_process" where
  "client_in ip l P = P\<lparr>p_shared := (p_shared P)\<lparr>sh_limiter := l\<rparr>,
     p_clients := (p_clients P)(length (p_threads P) \<mapsto> Requesting ip), p_threads := p_threads P @ [ip]\<rparr>"

lemma arrive_steps:
  assumes "running P" and "p_main P = Testing" and "p_open P" and "p_clients P (length (p_threads P)) = None"
    and "tryAcquire ip (sh_limiter (p_shared P)) = (True, l)"
  shows "proc_steps D cfg P (client_in ip l P)"
proof -
  let ?P = "P\<lparr>p_main := Accepting\<rparr>"
  have "proc_step D cfg P ?P" using test [OF assms(1,2), of D cfg] assms(3) by simp
  moreover have "proc_step D cfg ?P ((with_server ?P \<lparr>srv_limiter = l, srv_threads = p_threads P @ [ip]\<rparr>)
      \<lparr>p_clients := (p_clients ?P)(length (p_threads ?P) \<mapsto> Requesting ip), p_main := Testing\<rparr>)"
    by (rule arrive) (use assms in \<open>auto simp: running_def accept_turn_def server_of_def\<close>)
  moreover have "(with_server ?P \<lparr>srv_limiter = l, srv_threads = p_threads P @ [ip]\<rparr>)
      \<lparr>p_clients := (p_clients ?P)(length (p_threads ?P) \<mapsto> Requesting ip), p_main := Testing\<rparr> = client_in ip l P"
    using assms(2) by (cases P) (simp add: with_server_def client_in_def)
  ultimately show ?thesis by (metis converse_rtranclp_into_rtranclp r_into_rtranclp)
qed

section \<open>A first client\<close>

text \<open>The process with one client, which is served, and the way there.\<close>

definition one_session :: "server_config \<Rightarrow> sess_sys \<Rightarrow> server_process" where
  "one_session c S = (boot_process c)\<lparr>
     p_shared := \<lparr>sh_world = sys_w S, sh_limiter = snd (tryAcquire ''a'' (boot_limiter c)), sh_tracker = {0}\<rparr>,
     p_clients := (\<lambda>_. None)(0 \<mapsto> Serving ''a'' S), p_threads := [''a'']\<rparr>"

definition first_start :: "server_config \<Rightarrow> sess_sys" where
  "first_start c = start_sys (boot_world c) (session_config_of c) (generateSessionId 0 1000) 0"

text \<open>The configuration admits a client.\<close>

definition admits :: "server_config \<Rightarrow> bool" where
  "admits c \<longleftrightarrow> 0 < sc_max_connections c \<and> 0 < sc_max_connections_per_ip c"

lemma admits_default [simp]: "admits default_config" "admits (default_config\<lparr>sc_auth_token := k\<rparr>)"
  by (simp_all add: admits_def default_config_def)

lemma boot_grants: "admits c \<Longrightarrow> tryAcquire ip (boot_limiter c) = (True, snd (tryAcquire ip (boot_limiter c)))"
  using tryAcquire_result [of ip "boot_limiter c"]
  by (simp add: admits_def boot_limiter_def new_limiter_def ip_count_def prod_eq_iff)

lemma boot_running [simp]: "running (boot_process c)"
  by (simp add: running_def boot_process_def)

lemma first_arrival:
  assumes "admits c"
  shows "proc_steps D cfg (boot_process c) (client_in ''a'' (snd (tryAcquire ''a'' (boot_limiter c))) (boot_process c))"
  by (rule arrive_steps) (use boot_grants [OF assms, of "''a''"] in \<open>simp_all add: boot_process_def running_def\<close>)

lemma first_client_reached:
  assumes "admits c" and "d \<in> D"
  shows "proc_steps D (session_config_of c) (boot_process c) (one_session c (first_start c))"
proof -
  let ?cfg = "session_config_of c" and ?l = "snd (tryAcquire ''a'' (boot_limiter c))"
  let ?P = "client_in ''a'' ?l (boot_process c)"
  have "proc_steps D ?cfg (boot_process c) ?P" by (rule first_arrival [OF assms(1)])
  moreover have "client_step d ?cfg 0 (p_shared ?P) (Requesting ''a'')
      ((p_shared ?P)\<lparr>sh_tracker := tracker_add 0 (sh_tracker (p_shared ?P))\<rparr>)
      (Some (Serving ''a'' (start_sys (sh_world (p_shared ?P)) ?cfg (generateSessionId 0 1000) 0)))"
    by (rule upgrade [of "''/''"]) (simp_all add: handle_http_request_def)
  then have "proc_step D ?cfg ?P (?P\<lparr>p_shared := (p_shared ?P)\<lparr>sh_tracker := tracker_add 0 (sh_tracker (p_shared ?P))\<rparr>,
      p_clients := (p_clients ?P)(0 \<mapsto> Serving ''a'' (start_sys (sh_world (p_shared ?P)) ?cfg (generateSessionId 0 1000) 0))\<rparr>)"
    by (intro proc_step.client [OF _ _ assms(2)]) (simp_all add: client_in_def running_def boot_process_def)
  moreover have "?P\<lparr>p_shared := (p_shared ?P)\<lparr>sh_tracker := tracker_add 0 (sh_tracker (p_shared ?P))\<rparr>,
      p_clients := (p_clients ?P)(0 \<mapsto> Serving ''a'' (start_sys (sh_world (p_shared ?P)) ?cfg (generateSessionId 0 1000) 0))\<rparr>
    = one_session c (first_start c)"
    by (simp add: client_in_def one_session_def first_start_def boot_process_def tracker_add_def start_sys_def)
  ultimately show ?thesis by simp
qed

lemma one_session_reached:
  assumes "(sys_step d)\<^sup>+\<^sup>+ (first_start c) S" and "\<not> crashed S" and "admits c" and "d \<in> D"
  shows "proc_steps D (session_config_of c) (boot_process c) (one_session c S)"
proof -
  have "(first_start c)\<lparr>sys_w := sh_world (p_shared (one_session c (first_start c)))\<rparr> = first_start c"
    by (simp add: one_session_def)
  then have "proc_steps D (session_config_of c) (one_session c (first_start c)) (one_session c S)"
    using serve_session_steps [of d "one_session c (first_start c)" "first_start c" S 0 "''a''" D "session_config_of c"] assms
    by (simp add: one_session_def running_def boot_process_def first_start_def start_sys_def)
  with first_client_reached [OF assms(3,4)] show ?thesis by (rule rtranclp_trans)
qed

text \<open>A config message that passes the authentication makes it a configured session.\<close>

lemma config_accepted:
  fixes c defines "s \<equiv> (new_session (session_config_of c) (generateSessionId 0 1000) 0)\<lparr>flush_running := True\<rparr>"
  assumes "is_config demo_deps (Text m)" and "parse_json demo_deps m = Inr msg"
    and "prepare_config demo_deps 1 1 msg (boot_world c) s = (Inr vad, w, s)"
  shows "\<exists>S e. (sys_step demo_deps)\<^sup>+\<^sup>+ (first_start c) S \<and> \<not> crashed S \<and> s_engine (sys_s S) = Some e \<and> configured (sys_s S)
     \<and> length (ws_sent (sys_s S)) = 1 \<and> reader S = Reading \<and> flusher S = Sleeping \<and> sys_read S = [Text m]"
proof -
  let ?cfg = "session_config_of c"
  let ?S1 = "(first_start c)\<lparr>sys_s := s, reader := Reading, flusher := Sleeping\<rparr>"
  let ?S2 = "?S1\<lparr>sys_w := w, sys_read := [Text m], reader := Loading vad\<rparr>"
  have s1: "sys_step demo_deps (first_start c) ?S1"
    using accept [of "first_start c" demo_deps] by (simp add: first_start_def start_sys_def s_def)
  have s2: "sys_step demo_deps ?S1 ?S2"
    using prepare [of ?S1 demo_deps m msg 1 1 "Inr vad" w s] assms
    by (simp add: first_start_def start_sys_def readable_def new_session_def)
  have "w_cache w = w_cache (boot_world c)" by (rule prepare_frame [OF assms(4)])
  then obtain cx k where acq: "cache_acquire (load_model demo_deps) (cfg_model_path ?cfg) (w_cache w) = (Inr cx, k)"
    by (simp add: cache_acquire_def demo_deps_def boot_world_def configure_def new_cache_def cancelUnloadLocked_def)
  let ?S3 = "?S2\<lparr>sys_w := w\<lparr>w_cache := k\<rparr>, reader := Installing vad cx\<rparr>"
  have s3: "sys_step demo_deps ?S2 ?S3"
    using load [of ?S2 vad demo_deps "Inr cx" k] acq
    by (simp add: first_start_def start_sys_def new_session_def s_def)
  obtain t e where inst: "install_engine demo_deps 1 vad cx s = (None, t)" "s_engine t = Some e"
    "ws_sent t = []" "ws_open t" "ws_link t" "configured t"
    by (simp add: install_engine_def new_engine_def demo_deps_def new_session_def s_def)
  let ?S4 = "?S3\<lparr>sys_s := t, reader := Greeting\<rparr>" and ?S5 = "?S3\<lparr>sys_s := sendReady demo_deps t, reader := Reading\<rparr>"
  have s4: "sys_step demo_deps ?S3 ?S4"
    using install [of ?S3 vad cx demo_deps 1 None t] inst(1)
    by (simp add: first_start_def start_sys_def flusher_locks_def)
  have s5: "sys_step demo_deps ?S4 ?S5"
    using greet [of ?S4 demo_deps] by (simp add: first_start_def start_sys_def)
  have "(sys_step demo_deps)\<^sup>+\<^sup>+ (first_start c) ?S5"
    using s1 s2 s3 s4 s5 by (meson tranclp.r_into_trancl tranclp.trancl_into_trancl)
  moreover have "length (ws_sent (sendReady demo_deps t)) = 1"
    using inst by (simp add: sendReady_def sendMessage_def demo_deps_def)
  ultimately show ?thesis using inst(2,6)
    by (intro exI [of _ ?S5] exI [of _ e]) (simp add: first_start_def start_sys_def)
qed

lemma first_config:
  "\<exists>S e. (sys_step demo_deps)\<^sup>+\<^sup>+ (first_start default_config) S \<and> \<not> crashed S \<and> s_engine (sys_s S) = Some e
     \<and> configured (sys_s S) \<and> length (ws_sent (sys_s S)) = 1 \<and> reader S = Reading \<and> flusher S = Sleeping \<and> sys_read S = [Text ''config'']"
  by (rule config_accepted [of "''config''" "JObj [(''type'', JStr ''config'')]" _ "FNum 0" "boot_world default_config"])
    (simp_all add: is_config_def demo_deps_def prepare_config_def auth_check_def isAuthEnabled_def boot_world_def
        new_auth_manager_def auth_config_of_def default_config_def get_vad_def new_session_def)

text \<open>The same with a static token.\<close>

definition token_config :: server_config where
  "token_config = default_config\<lparr>sc_auth_token := ''k''\<rparr>"

lemma first_login:
  "\<exists>S e. (sys_step demo_deps)\<^sup>+\<^sup>+ (first_start token_config) S \<and> \<not> crashed S \<and> s_engine (sys_s S) = Some e
     \<and> configured (sys_s S) \<and> length (ws_sent (sys_s S)) = 1 \<and> reader S = Reading \<and> flusher S = Sleeping \<and> sys_read S = [Text ''login'']"
  by (rule config_accepted [of "''login''" "JObj [(''type'', JStr ''config''), (''token'', JStr ''k'')]" _ "FNum 0" "boot_world token_config"])
    (simp_all add: is_config_def demo_deps_def prepare_config_def auth_check_def isAuthEnabled_def boot_world_def
        new_auth_manager_def auth_config_of_def default_config_def token_config_def get_vad_def new_session_def
        auth_validate_static)

text \<open>
  The forced exit: a signal, the loop is left, and the watchdog does not wait for the sessions.
  When cancelling a socket does not end its blocking operations, the sessions are as before.
\<close>

lemma forced_exit_reached:
  assumes "running P" and "p_main P = Testing" and "p_open P" and "d \<in> D" and "\<not> cancel_blocking d"
  shows "\<exists>Q. proc_steps D cfg P Q \<and> p_clients Q = p_clients P \<and> p_main Q = Ended Forced"
proof -
  have same: "cancel_clients d (sh_tracker (p_shared P)) (p_clients P) = p_clients P"
    using assms(5) by (auto simp: cancel_clients_def shutdownAll_def shutdown_def split: option.split client.split)
  let ?P1 = "P\<lparr>p_open := False, p_clients := cancel_clients d (sh_tracker (p_shared P)) (p_clients P)\<rparr>"
  let ?P2 = "?P1\<lparr>p_main := (if p_open ?P1 then Accepting else Draining)\<rparr>"
  let ?P3 = "?P2\<lparr>p_main := Exiting Forced\<rparr>"
  let ?P4 = "?P3\<lparr>p_shared := (p_shared ?P3)\<lparr>sh_world := (sh_world (p_shared ?P3))
      \<lparr>w_cache := cache_destroy (w_cache (sh_world (p_shared ?P3)))\<rparr>\<rparr>, p_main := Ended Forced\<rparr>"
  have run: "running ?P1" "running ?P2" "running ?P3" using assms(1,2) by (simp_all add: running_def same)
  have "proc_step D cfg P ?P1" by (rule signal) (use assms in simp_all)
  moreover have "proc_step D cfg ?P1 ?P2" by (rule test [OF run(1)]) (use assms in simp)
  moreover have "proc_step D cfg ?P2 ?P3" by (rule watchdog [OF run(2)]) simp
  moreover have "proc_step D cfg ?P3 ?P4" by (rule destruct [OF run(3)]) simp
  ultimately have "proc_steps D cfg P ?P4" by (meson converse_rtranclp_into_rtranclp r_into_rtranclp)
  moreover have "p_clients ?P4 = p_clients P \<and> p_main ?P4 = Ended Forced" by (simp add: same)
  ultimately show ?thesis by blast
qed

end
