(* ===== verification/Server_Properties.thy ===== *)
theory Server_Properties
  imports Server_Runs
begin

text \<open>
  What holds of the whole process: which counters the limiter, the inference limiter and the
  routes for monitoring show, what the sessions send, and what a shutdown does and does not do.
\<close>

section \<open>Lemmas: the messages of all sessions\<close>

definition all_protocol :: "deps set \<Rightarrow> server_process \<Rightarrow> bool" where
  "all_protocol D P \<longleftrightarrow> (\<forall>i ip S. p_clients P i = Some (Serving ip S) \<longrightarrow> protocol_inv S \<and> greeting_data D (sys_s S))"

text \<open>
  What the protocol needs of the JSON library: text that came out of a parsed message can be
  printed again, with the identifier of a session.
\<close>

definition greeting_prints :: "deps set \<Rightarrow> bool" where
  "greeting_prints D \<longleftrightarrow> (\<forall>d \<in> D. \<forall>s. greeting_data D s \<longrightarrow> can_dump d (ready_msg s))"

lemma shutdown_protocol:
  assumes "protocol_inv S"
  shows "protocol_inv (S\<lparr>sys_s := shutdownAll d T (\<lambda>_. sys_s S) i\<rparr>)"
proof (cases "i \<in> T \<and> cancel_blocking d")
  case True
  show ?thesis
    by (rule protocol_down [OF assms]) (use True in \<open>simp_all add: shutdownAll_def shutdown_def conn_up_def\<close>)
next
  case False
  then have "shutdownAll d T (\<lambda>_. sys_s S) i = sys_s S" by (auto simp: shutdownAll_def shutdown_def)
  then show ?thesis using assms by simp
qed

lemma shutdown_greeting: "greeting_data D (shutdownAll d T (\<lambda>_. s) i) = greeting_data D s"
  by (simp add: greeting_data_def shutdownAll_def shutdown_def)

lemma client_step_protocol:
  assumes "client_step d cfg i sh a sh' b" and "greeting_prints D" and "d \<in> D"
    and "\<And>ip S. a = Serving ip S \<Longrightarrow> protocol_inv S \<and> greeting_data D (sys_s S)" and "b = Some (Serving ip S)"
  shows "protocol_inv S \<and> greeting_data D (sys_s S)"
  using assms(1)
proof (cases rule: client_step.cases)
  case (upgrade target dis ip ms now)
  then show ?thesis using assms(5) start_sys_protocol start_sys_greeting by simp
next
  case (session T T' ip')
  then have T: "protocol_inv T" "greeting_data D (sys_s T)" using assms(4) [of ip' T] by simp_all
  then have "can_dump d (ready_msg (sys_s T))" using assms(2,3) by (simp add: greeting_prints_def)
  then show ?thesis
    using session assms(5) T sys_step_protocol [OF session(4)] sys_step_greeting [OF session(4) assms(3)] by simp
qed (use assms(5) in simp_all)

lemma proc_step_protocol:
  assumes "proc_step D cfg P P'" and "greeting_prints D" and "all_protocol D P"
  shows "all_protocol D P'"
  using assms(1,3)
proof (induction rule: proc_step.induct)
  case (client P i a d sh b)
  have "protocol_inv S \<and> greeting_data D (sys_s S)" if "b = Some (Serving ip S)" for ip S
    by (rule client_step_protocol [OF client(4) assms(2) client(3) _ that]) (use client in \<open>auto simp: all_protocol_def\<close>)
  then show ?case using client(5) by (auto simp: all_protocol_def)
next
  case (arrive P ip out sv)
  then show ?case by (auto simp: all_protocol_def)
next
  case (signal P d)
  have "protocol_inv S \<and> greeting_data D (sys_s S)"
    if "cancel_clients d (sh_tracker (p_shared P)) (p_clients P) j = Some (Serving ip S)" for j ip S
    using that signal(5) shutdown_protocol shutdown_greeting
    by (auto simp: all_protocol_def cancel_clients_def split: option.splits client.splits)
  then show ?case by (simp add: all_protocol_def)
qed (simp_all add: all_protocol_def with_server_def)

lemma reachable_protocol:
  assumes "proc_steps D cfg (boot_process c) P" and "greeting_prints D"
  shows "all_protocol D P"
  using assms(1)
proof (induction rule: rtranclp_induct)
  case base
  then show ?case by (simp add: all_protocol_def boot_process_def)
next
  case (step P Q)
  then show ?case using proc_step_protocol [OF _ assms(2)] by blast
qed

section \<open>Lemmas: who decodes\<close>

text \<open>The flush threads that decode, and the sessions whose receive loop runs the final decode.\<close>

definition serving :: "(sess_sys \<Rightarrow> bool) \<Rightarrow> server_process \<Rightarrow> nat set" where
  "serving Q P = {i. \<exists>ip S. p_clients P i = Some (Serving ip S) \<and> Q S}"

definition decoding :: "server_process \<Rightarrow> nat set" where
  "decoding P = serving flusher_locks P"

definition finishing :: "server_process \<Rightarrow> nat set" where
  "finishing P = serving (\<lambda>S. reader S = Finishing) P"

lemma total_slots: "finite (dom (p_clients P)) \<Longrightarrow> total_of client_slots (p_clients P) = card (decoding P)"
proof -
  assume fin: "finite (dom (p_clients P))"
  have "total_of client_slots (p_clients P) = total_of (\<lambda>a. of_bool (\<exists>ip S. a = Serving ip S \<and> flusher_locks S)) (p_clients P)"
    by (rule total_of_cong) (simp add: client_slots_def slots_held_def split: client.split)
  also have "\<dots> = card (decoding P)"
    unfolding total_of_card [OF fin] decoding_def serving_def by (rule arg_cong [where f = card]) blast
  finally show ?thesis .
qed

lemma one_decoder_per_session:
  assumes "proc_inv c P"
  shows "decoding P \<inter> finishing P = {}"
proof -
  have "\<not> (flusher_locks S \<and> reader S = Finishing)" if "p_clients P i = Some (Serving ip S)" for i ip S
  proof -
    obtain w where "shared_ok c w (p_clients P)" using assms by (auto simp: proc_inv_def Let_def)
    then have "client_ok (sc_model_path c) w (Serving ip S)" using that by (auto simp: shared_ok_def)
    then show ?thesis by (auto simp: client_ok_def sys_inv_def flusher_locks_def)
  qed
  then show ?thesis by (auto simp: decoding_def finishing_def serving_def)
qed

lemma proc_inv_counts:
  assumes "proc_inv c P"
  shows "active_count (w_inf (sh_world (p_shared P))) = int (card (decoding P))"
    "int (card (decoding P)) \<le> max_concurrent (w_inf (boot_world c))"
    "max_concurrent (w_inf (sh_world (p_shared P))) = max_concurrent (w_inf (boot_world c))"
    "total (sh_limiter (p_shared P)) = card (dom (p_clients P))"
    "card (dom (p_clients P)) \<le> sc_max_connections c"
    "max_total (sh_limiter (p_shared P)) = sc_max_connections c"
    "count (ips (p_clients P)) ip \<le> sc_max_connections_per_ip c"
    "ip_count (sh_limiter (p_shared P)) ip = count (ips (p_clients P)) ip"
    "sh_tracker (p_shared P) = serving (\<lambda>_. True) P"
proof -
  obtain k where inv: "shared_ok c ((sh_world (p_shared P))\<lparr>w_cache := k\<rparr>) (p_clients P)"
    "conns_ok c (sh_limiter (p_shared P)) (p_clients P)" "tracked (sh_tracker (p_shared P)) (p_clients P)"
    using assms by (auto simp: proc_inv_def Let_def)
  then have fin: "finite (dom (p_clients P))" by (simp add: shared_ok_def)
  show "active_count (w_inf (sh_world (p_shared P))) = int (card (decoding P))"
    "int (card (decoding P)) \<le> max_concurrent (w_inf (boot_world c))"
    "max_concurrent (w_inf (sh_world (p_shared P))) = max_concurrent (w_inf (boot_world c))"
    using inv total_slots [OF fin] by (auto simp: shared_ok_def)
  show "total (sh_limiter (p_shared P)) = card (dom (p_clients P))"
    "card (dom (p_clients P)) \<le> sc_max_connections c" "max_total (sh_limiter (p_shared P)) = sc_max_connections c"
    "count (ips (p_clients P)) ip \<le> sc_max_connections_per_ip c"
    "ip_count (sh_limiter (p_shared P)) ip = count (ips (p_clients P)) ip"
    using inv size_ips [OF fin] by (auto simp: conns_ok_def represents_def)
  show "sh_tracker (p_shared P) = serving (\<lambda>_. True) P"
    using inv unfolding tracked_def serving_def by (auto simp: is_session_def) (auto split: client.splits)
qed

section \<open>Properties\<close>

text \<open>C4: The server never serves more clients than configured, in total and per address, and never
  loses a connection slot: in every state it can reach, the counters of the connection limiter
  are exactly the clients whose threads run, whatever these did, however they ended, and also
  when a thread could not be started.\<close>

theorem open_connections_within_limits:
  assumes "proc_steps D (session_config_of c) (boot_process c) P"
  shows "card (dom (p_clients P)) \<le> sc_max_connections c
    \<and> total (sh_limiter (p_shared P)) = card (dom (p_clients P))
    \<and> (\<forall>ip. ip_count (sh_limiter (p_shared P)) ip = count (ips (p_clients P)) ip
         \<and> count (ips (p_clients P)) ip \<le> sc_max_connections_per_ip c)"
  using proc_inv_counts [OF reachable_inv [OF assms]] by simp

theorem open_connections_within_limits_witness:
  "\<exists>S. ip_count (sh_limiter (p_shared (one_session default_config S))) ''a'' = count (ips (p_clients (one_session default_config S))) ''a''
    \<and> card (dom (p_clients (one_session default_config S))) = 1"
  using open_connections_within_limits [OF first_client_reached [OF admits_default(1) singletonI [of demo_deps]]]
  by (intro exI [of _ "first_start default_config"]) (simp add: one_session_def)

text \<open>C5: As many flush threads decode as the inference limiter counts, never more than its limit,
  and in no session does the final decode run while its flush thread decodes.\<close>

theorem flush_decoders_within_limit:
  assumes "proc_steps D (session_config_of c) (boot_process c) P"
  shows "active_count (w_inf (sh_world (p_shared P))) = int (card (decoding P))
    \<and> int (card (decoding P)) \<le> max_concurrent (w_inf (boot_world c))
    \<and> decoding P \<inter> finishing P = {}"
  using proc_inv_counts [OF reachable_inv [OF assms]] one_decoder_per_session [OF reachable_inv [OF assms]] by simp

theorem flush_decoders_within_limit_witness:
  "\<exists>S. s_engine (sys_s S) \<noteq> None \<and> decoding (one_session default_config S) \<inter> finishing (one_session default_config S) = {}"
proof -
  obtain S e where "(sys_step demo_deps)\<^sup>+\<^sup>+ (first_start default_config) S" "\<not> crashed S" "s_engine (sys_s S) = Some e"
    using first_config by blast
  then show ?thesis using flush_decoders_within_limit [OF one_session_reached [OF _ _ admits_default(1) singletonI [of demo_deps], of S]] by auto
qed

text \<open>C38: The final decode of a session takes no slot: whatever the limit and however many decoders run,
  all sessions whose clients send the end message can be in their final decode at once, besides
  the flush threads that decode.\<close>

theorem final_decodes_exceed_limit:
  assumes "running P" and "finite I" and "is_end d f" and "d \<in> D"
    and "\<forall>i \<in> I. \<exists>ip S. p_clients P i = Some (Serving ip S) \<and> readable S \<and> configured (sys_s S) \<and> \<not> flusher_locks S"
  shows "\<exists>P'. proc_steps D cfg P P' \<and> finishing P' = finishing P \<union> I \<and> decoding P' = decoding P
    \<and> w_inf (sh_world (p_shared P')) = w_inf (sh_world (p_shared P))"
proof -
  have "\<exists>P'. proc_steps D cfg P P' \<and> finishing P' = finishing P \<union> I \<and> decoding P' = decoding P
      \<and> w_inf (sh_world (p_shared P')) = w_inf (sh_world (p_shared P)) \<and> running P'
      \<and> (\<forall>j. j \<notin> I \<longrightarrow> p_clients P' j = p_clients P j)"
    using assms(2,5)
  proof (induction I rule: finite_induct)
    case empty
    then show ?case using assms(1) by blast
  next
    case (insert i J)
    then obtain Q where Q: "proc_steps D cfg P Q" "finishing Q = finishing P \<union> J" "decoding Q = decoding P"
      "w_inf (sh_world (p_shared Q)) = w_inf (sh_world (p_shared P))" "running Q"
      "\<forall>j. j \<notin> J \<longrightarrow> p_clients Q j = p_clients P j" by auto
    obtain ip S where S: "p_clients P i = Some (Serving ip S)" "readable S" "configured (sys_s S)" "\<not> flusher_locks S"
      using insert.prems by auto
    then have i: "p_clients Q i = Some (Serving ip S)" using Q(6) insert.hyps by simp
    let ?S = "S\<lparr>sys_w := sh_world (p_shared Q)\<rparr>"
    let ?Q = "Q\<lparr>p_shared := (p_shared Q)\<lparr>sh_world := sh_world (p_shared Q)\<rparr>,
      p_clients := (p_clients Q)(i \<mapsto> Serving ip (?S\<lparr>sys_read := sys_read ?S @ [f], reader := Finishing\<rparr>))\<rparr>"
    have nc: "\<not> crashed S" using running_serving [OF Q(5) i] .
    have "sys_step d ?S (?S\<lparr>sys_read := sys_read ?S @ [f], reader := Finishing\<rparr>)"
      by (rule finish) (use nc S assms(3) in \<open>auto simp: readable_def flusher_locks_def\<close>)
    from serve_session_step [OF Q(5) i this assms(4)] have st: "proc_step D cfg Q ?Q" by simp
    have "serving R ?Q = (if R (?S\<lparr>sys_read := sys_read ?S @ [f], reader := Finishing\<rparr>) then insert i (serving R Q) else serving R Q - {i})" for R
      by (auto simp: serving_def)
    then have "finishing ?Q = insert i (finishing Q)" "decoding ?Q = decoding Q - {i}"
      using S(4) by (simp_all add: finishing_def decoding_def flusher_locks_def)
    moreover have "i \<notin> decoding Q" using i S(4) by (auto simp: decoding_def serving_def)
    ultimately have "finishing ?Q = finishing P \<union> insert i J" "decoding ?Q = decoding P" using Q by auto
    moreover have "running ?Q" using Q(5) nc by (auto simp: running_def)
    moreover have "\<forall>j. j \<notin> insert i J \<longrightarrow> p_clients ?Q j = p_clients P j" using Q(6) by auto
    moreover have "proc_steps D cfg P ?Q" by (rule rtranclp.rtrancl_into_rtrancl [OF Q(1) st])
    moreover have "w_inf (sh_world (p_shared ?Q)) = w_inf (sh_world (p_shared P))" using Q(4) by simp
    ultimately show ?case by blast
  qed
  then show ?thesis by blast
qed

definition two_sessions :: server_process where
  "two_sessions = (boot_process default_config)\<lparr>p_clients := (\<lambda>_. None)
     (0 \<mapsto> Serving ''a'' (ready_sys (windowed engine0) Sleeping), 1 \<mapsto> Serving ''a'' (ready_sys (windowed engine0) Sleeping))\<rparr>"

theorem final_decodes_exceed_limit_witness:
  "\<exists>P'. proc_steps {end_deps} (session_config_of default_config) two_sessions P' \<and> {0, 1} \<subseteq> finishing P'"
proof -
  have "running two_sessions" "is_end end_deps (Text ''e'')"
    "\<forall>i \<in> {0, 1}. \<exists>ip S. p_clients two_sessions i = Some (Serving ip S) \<and> readable S \<and> configured (sys_s S) \<and> \<not> flusher_locks S"
    by (auto simp: running_def two_sessions_def boot_process_def ready_sys_def windowed_def live_session_def
        new_session_def readable_def flusher_locks_def is_end_def end_deps_def)
  from final_decodes_exceed_limit [OF this(1) _ this(2) singletonI this(3), of "session_config_of default_config"] show ?thesis by auto
qed

text \<open>A sample of a metric, as one line.\<close>

definition sample :: "string \<Rightarrow> int \<Rightarrow> string" where
  "sample name v = name @ '' '' @ to_string_int v @ [CHR 0x0A]"

definition comment_line :: "string \<Rightarrow> string" where
  "comment_line text = CHR ''#'' # CHR '' '' # text @ [CHR 0x0A]"

lemmas route_defs = handle_http_request_def metrics_body_def inf_getMetrics_def cache_getMetrics_def
  conn_getMetrics_def sample_def comment_line_def isLoaded_def to_string_int_def

text \<open>C6: Monitoring tells the truth, in every reachable state: \<open>/ready\<close> answers 503 exactly when as many
  flush threads decode as the limit allows, and \<open>/metrics\<close> shows the number of these threads,
  whether a model is loaded, the reference count, and the number of all client threads, which
  it calls WebSocket connections although one that only asks for the metrics counts, too.\<close>

theorem monitoring_shows_counts:
  assumes "proc_steps D (session_config_of c) (boot_process c) P"
    and "w = sh_world (p_shared P)" and "limit = max_concurrent (w_inf (boot_world c))"
  shows "handle_http_request ''/ready'' w (sh_limiter (p_shared P)) = Some
      \<lparr>rs_status = (if int (card (decoding P)) < limit then 200 else 503), rs_type = ''application/json'',
       rs_body = json_status (if int (card (decoding P)) < limit then ''ready'' else ''busy'')\<rparr>
    \<and> handle_http_request ''/metrics'' w (sh_limiter (p_shared P)) = Some
      \<lparr>rs_status = 200, rs_type = ''text/plain; version=0.0.4'', rs_body =
         comment_line ''HELP transcription_active_inferences Number of concurrent inferences''
         @ comment_line ''TYPE transcription_active_inferences gauge''
         @ sample ''transcription_active_inferences'' (int (card (decoding P)))
         @ sample ''transcription_max_inferences'' limit
         @ comment_line ''HELP transcription_model_loaded Whether the model is currently in memory (1=yes, 0=no)''
         @ comment_line ''TYPE transcription_model_loaded gauge''
         @ sample ''transcription_model_loaded'' (if ctx (w_cache w) = None then 0 else 1)
         @ sample ''transcription_model_ref_count'' (refCount (w_cache w))
         @ comment_line ''HELP transcription_active_connections Number of active WebSocket connections''
         @ comment_line ''TYPE transcription_active_connections gauge''
         @ sample ''transcription_active_connections'' (int (card (dom (p_clients P))))
         @ sample ''transcription_max_connections'' (int (sc_max_connections c))\<rparr>"
proof -
  note n = proc_inv_counts [OF reachable_inv [OF assms(1)]]
  have cap: "hasCapacity (w_inf w) \<longleftrightarrow> int (card (decoding P)) < limit"
    using n(1,3) assms(2,3) by (simp add: hasCapacity_def)
  have "handle_http_request ''/ready'' w (sh_limiter (p_shared P)) = Some
      \<lparr>rs_status = (if int (card (decoding P)) < limit then 200 else 503), rs_type = ''application/json'',
       rs_body = json_status (if int (card (decoding P)) < limit then ''ready'' else ''busy'')\<rparr>"
    by (simp add: handle_http_request_def cap)
  moreover have "active_count (w_inf w) = int (card (decoding P))" "max_concurrent (w_inf w) = limit"
    using n(1,3) assms(2,3) by simp_all
  ultimately show ?thesis by (simp add: route_defs n refCount_def)
qed

theorem monitoring_shows_counts_witness:
  "\<exists>S r. s_engine (sys_s S) \<noteq> None \<and> handle_http_request ''/ready'' (sys_w S) (sh_limiter (p_shared (one_session default_config S))) = Some r
     \<and> rs_status r = 200"
proof -
  obtain S e where S: "(sys_step demo_deps)\<^sup>+\<^sup>+ (first_start default_config) S" "\<not> crashed S" "s_engine (sys_s S) = Some e" "flusher S = Sleeping"
    using first_config by blast
  then have "decoding (one_session default_config S) = {}"
    by (auto simp: decoding_def serving_def one_session_def flusher_locks_def)
  moreover have "0 < max_concurrent (w_inf (boot_world default_config))"
    by (simp add: boot_world_def setMaxConcurrency_def default_config_def new_inference_limiter_def)
  ultimately show ?thesis using S monitoring_shows_counts [OF one_session_reached [OF S(1,2) admits_default(1) singletonI] refl refl]
    by (intro exI [of _ S]) (simp add: one_session_def)
qed

text \<open>C2: What a client can be sent: in every reachable state, whatever it sent itself, each message of
  a session is one of the four kinds of the protocol with its fields, no transcription comes
  before the greeting, and there is at most one final transcription. Of the JSON library this
  needs that a greeting can be printed whose language came out of a parsed message; whether
  any other message can be printed, and what the client sends, is left open.\<close>

theorem messages_follow_protocol:
  assumes "proc_steps D (session_config_of c) (boot_process c) P" and "greeting_prints D"
    and "p_clients P i = Some (Serving ip S)"
  shows "(\<forall>j \<in> set (ws_sent (sys_s S)). protocol_msg j)
    \<and> (\<forall>j \<in> set (takeWhile (\<lambda>j. \<not> is_ready j) (ws_sent (sys_s S))). \<not> is_transcription j)
    \<and> length (filter is_final_msg (ws_sent (sys_s S))) \<le> 1"
proof -
  have "protocol_inv S"
    using reachable_protocol [OF assms(1)] assms(2,3) unfolding all_protocol_def by blast
  then show ?thesis unfolding protocol_inv_def sent_ok_def finals_def by blast
qed

theorem messages_follow_protocol_witness:
  "\<exists>S j. proc_steps {demo_deps} (session_config_of default_config) (boot_process default_config) (one_session default_config S)
    \<and> ws_sent (sys_s S) = [j] \<and> protocol_msg j \<and> \<not> is_final_msg j"
proof -
  obtain S where S: "(sys_step demo_deps)\<^sup>+\<^sup>+ (first_start default_config) S" "\<not> crashed S" "length (ws_sent (sys_s S)) = 1"
    using first_config by blast
  then obtain j where j: "ws_sent (sys_s S) = [j]" by (auto simp: length_Suc_conv)
  note reach = one_session_reached [OF S(1,2) admits_default(1) singletonI]
  have "greeting_prints {demo_deps}" by (simp add: greeting_prints_def demo_deps_def)
  with messages_follow_protocol [OF reach, of 0 "''a''" S]
  have "protocol_msg j \<and> (is_ready j \<or> \<not> is_transcription j)" by (auto simp: one_session_def j)
  then show ?thesis using reach j by (auto simp: is_final_msg_def is_ready_def is_transcription_def)
qed

text \<open>C37: The shutdown misses sessions: once the handler of the signal has run, a client that has not been
  upgraded yet can still become a session, with an open connection, and from then on nothing but
  its own threads changes a session, even if cancelling a socket ended blocking operations.\<close>

theorem late_session_outlives_signal:
  assumes "running P" and "\<not> p_open P" and "p_clients P i = Some (Requesting ip)"
    and "handle_http_request target (sh_world (p_shared P)) (sh_limiter (p_shared P)) = None" and "d \<in> D"
  shows "(\<exists>P'. proc_step D cfg P P' \<and> \<not> p_open P'
      \<and> p_clients P' i = Some (Serving ip (start_sys (sh_world (p_shared P)) cfg (generateSessionId ms 1000) now)))
    \<and> (\<forall>Q Q' j. \<not> p_open Q \<and> proc_step D cfg Q Q' \<longrightarrow> \<not> p_open Q'
      \<and> (p_clients Q j = None \<or> p_clients Q' j = p_clients Q j
        \<or> (\<exists>d \<in> D. \<exists>a sh. p_clients Q j = Some a \<and> client_step d cfg j (p_shared Q) a sh (p_clients Q' j))))"
proof -
  let ?P = "P\<lparr>p_shared := (p_shared P)\<lparr>sh_tracker := tracker_add i (sh_tracker (p_shared P))\<rparr>,
      p_clients := (p_clients P)(i \<mapsto> Serving ip (start_sys (sh_world (p_shared P)) cfg (generateSessionId ms 1000) now))\<rparr>"
  have "proc_step D cfg P ?P"
    by (rule proc_step.client [OF assms(1,3,5)]) (rule upgrade [OF assms(4)], simp_all)
  then have "\<exists>P'. proc_step D cfg P P' \<and> \<not> p_open P'
      \<and> p_clients P' i = Some (Serving ip (start_sys (sh_world (p_shared P)) cfg (generateSessionId ms 1000) now))"
    using assms(2) by (intro exI [of _ ?P]) simp
  moreover have "\<not> p_open Q' \<and> (p_clients Q j = None \<or> p_clients Q' j = p_clients Q j
      \<or> (\<exists>d \<in> D. \<exists>a sh. p_clients Q j = Some a \<and> client_step d cfg j (p_shared Q) a sh (p_clients Q' j)))"
    if "proc_step D cfg Q Q'" "\<not> p_open Q" for Q Q' j
    using that by (cases rule: proc_step.cases) (auto simp: with_server_def)
  ultimately show ?thesis by blast
qed

theorem late_session_outlives_signal_witness:
  "\<exists>P. proc_steps {demo_deps} (session_config_of default_config) (boot_process default_config) P
    \<and> \<not> p_open P \<and> (\<exists>S. p_clients P 0 = Some (Serving ''a'' S) \<and> conn_up (sys_s S))"
proof -
  let ?cfg = "session_config_of default_config"
  let ?Q = "client_in ''a'' (snd (tryAcquire ''a'' (boot_limiter default_config))) (boot_process default_config)"
  have "proc_steps {demo_deps} ?cfg (boot_process default_config) ?Q"
    by (rule first_arrival) simp
  moreover have run: "running ?Q" by (simp add: client_in_def running_def boot_process_def)
  define R where "R = ?Q\<lparr>p_open := False, p_clients := cancel_clients demo_deps (sh_tracker (p_shared ?Q)) (p_clients ?Q)\<rparr>"
  have "proc_step {demo_deps} ?cfg ?Q R"
    unfolding R_def by (rule signal [OF run]) (simp_all add: client_in_def boot_process_def)
  moreover have R: "running R" "\<not> p_open R" "p_clients R 0 = Some (Requesting ''a'')"
    by (auto simp: R_def running_def client_in_def boot_process_def cancel_clients_def)
  have "handle_http_request ''/'' (sh_world (p_shared R)) (sh_limiter (p_shared R)) = None"
    by (simp add: handle_http_request_def)
  from late_session_outlives_signal [OF R this singletonI [of demo_deps], where cfg = ?cfg and ms = 0 and now = 0]
  obtain P where "proc_step {demo_deps} ?cfg R P" "\<not> p_open P"
    "p_clients P 0 = Some (Serving ''a'' (start_sys (sh_world (p_shared R)) ?cfg (generateSessionId 0 1000) 0))" by blast
  moreover have "conn_up (sys_s (start_sys (sh_world (p_shared R)) ?cfg (generateSessionId 0 1000) 0))"
    by (simp add: conn_up_def start_sys_def new_session_def)
  ultimately show ?thesis by (metis rtranclp.rtrancl_into_rtrancl)
qed

text \<open>The vector of session threads is not bounded by the connection limit: finished threads stay
  in it until shutdown, so any number of them accumulates although no connection is open.\<close>

theorem finished_threads_accumulate:
  assumes "0 < sc_max_connections c" and "0 < sc_max_connections_per_ip c" and "d \<in> D"
  shows "\<exists>P. proc_steps D (session_config_of c) (boot_process c) P \<and> length (p_threads P) = n \<and> p_clients P = Map.empty"
proof -
  let ?cfg = "session_config_of c"
  have "\<exists>P. proc_steps D ?cfg (boot_process c) P \<and> length (p_threads P) = n \<and> p_clients P = Map.empty
      \<and> p_main P = Testing \<and> p_open P"
  proof (induction n)
    case 0
    show ?case by (intro exI [of _ "boot_process c"]) (simp add: boot_process_def)
  next
    case (Suc n)
    then obtain P where P: "proc_steps D ?cfg (boot_process c) P" "length (p_threads P) = n" "p_clients P = Map.empty"
      "p_main P = Testing" "p_open P" by blast
    have "proc_inv c P" by (rule reachable_inv [OF P(1)])
    moreover have "\<not> ended P" using P(4) by (simp add: ended_def)
    ultimately have "fst (tryAcquire [] (sh_limiter (p_shared P)))"
      using assms by (simp add: proc_inv_alt conns_ok_def represents_def P(3) tryAcquire_result)
    then obtain l where l: "tryAcquire [] (sh_limiter (p_shared P)) = (True, l)" by (cases "tryAcquire [] (sh_limiter (p_shared P))") simp
    have run: "running P" using P(3,4) by (simp add: running_def)
    let ?n = "length (p_threads P)"
    let ?Q = "client_in [] l P"
    let ?R = "?Q\<lparr>p_shared := p_shared ?Q, p_clients := (p_clients ?Q)(?n := Some (Leaving []))\<rparr>"
    let ?T = "?R\<lparr>p_shared := (p_shared ?R)\<lparr>sh_limiter := guard_destroy (Some []) (sh_limiter (p_shared ?R))\<rparr>,
      p_clients := (p_clients ?R)(?n := None)\<rparr>"
    have "proc_steps D ?cfg P ?Q" by (rule arrive_steps [OF run P(4,5) _ l]) (simp add: P(3))
    moreover have "proc_step D ?cfg ?Q ?R"
      by (rule proc_step.client [OF _ _ assms(3) broken]) (use P in \<open>auto simp: client_in_def running_def\<close>)
    moreover have "proc_step D ?cfg ?R ?T"
      by (rule proc_step.client [OF _ _ assms(3) leave]) (use P in \<open>auto simp: client_in_def running_def\<close>)
    ultimately have "proc_steps D ?cfg (boot_process c) ?T"
      using P(1) by (meson rtranclp.rtrancl_into_rtrancl rtranclp_trans)
    moreover have "length (p_threads ?T) = Suc n \<and> p_clients ?T = Map.empty \<and> p_main ?T = Testing \<and> p_open ?T"
      using P by (auto simp: client_in_def)
    ultimately show ?case by blast
  qed
  then show ?thesis by blast
qed

theorem finished_threads_accumulate_witness:
  "\<exists>P. proc_steps {demo_deps} (session_config_of default_config) (boot_process default_config) P
    \<and> length (p_threads P) = 1000000 \<and> p_clients P = Map.empty"
  by (rule finished_threads_accumulate [OF _ _ singletonI]) (simp_all add: default_config_def)

end
