(* ===== verification/Server_Auth.thy ===== *)
theory Server_Auth
  imports Server_Runs
begin

text \<open>
  Authentication over the whole process: in every interleaving a session is configured only
  after the authentication manager accepted a token of its client.
\<close>

section \<open>Lemmas: the manager stays as configured\<close>

lemma sys_step_auth:
  assumes "sys_step d S S'"
  shows "auth_enabled (w_auth (sys_w S')) = auth_enabled (w_auth (sys_w S))"
  using assms
proof (induction rule: sys_step.induct)
  case (reply S m t0 t1 x w s)
  then show ?case using reply_frame(1) [OF reply(5,3,4)] by simp
next
  case (prepare S m msg t0 t1 r w s)
  then show ?case using prepare_frame(9) [OF prepare(5)] by simp
next
  case (give_back S now w s)
  then show ?case by (auto simp: releaseModel_def split: if_splits)
qed simp_all

lemma client_step_auth:
  assumes "client_step d cfg i sh a sh' b"
  shows "auth_enabled (w_auth (sh_world sh')) = auth_enabled (w_auth (sh_world sh))"
  using assms
proof (cases rule: client_step.cases)
  case (session S S' ip)
  then show ?thesis using sys_step_auth [OF session(4)] by simp
next
  case (destroy S now w s ip)
  then show ?thesis by (auto simp: destroy_session_def releaseModel_def split: if_splits)
qed simp_all

definition auth_of :: "server_process \<Rightarrow> bool" where
  "auth_of P = isAuthEnabled (w_auth (sh_world (p_shared P)))"

lemma proc_step_auth: "proc_step D cfg P P' \<Longrightarrow> auth_of P' = auth_of P"
  by (induction rule: proc_step.induct)
    (auto simp: auth_of_def isAuthEnabled_def with_server_def client_step_auth)

interpretation auth_kept: step_invariant "proc_step D cfg" "\<lambda>P. auth_of P = on"
  by unfold_locales (simp add: proc_step_auth)

section \<open>Lemmas: the way to a configured session\<close>

text \<open>A config message of the session has passed the authentication, and the model is fetched for it.\<close>

definition loading :: "sess_sys \<Rightarrow> bool" where
  "loading S \<longleftrightarrow> (\<exists>v. reader S = Loading v) \<or> (\<exists>v cx. reader S = Installing v cx)"

lemma loading_simps [simp]:
  "loading (S\<lparr>sys_w := w\<rparr>) = loading S" "\<not> loading (start_sys w cfg sid now)"
  by (simp_all add: loading_def start_sys_def)

text \<open>The text \<open>m\<close> is a config message whose token the manager accepts in the shared state \<open>w\<close>.\<close>

definition accepted_config :: "deps \<Rightarrow> string \<Rightarrow> world \<Rightarrow> bool" where
  "accepted_config d m w \<longleftrightarrow> is_config d (Text m) \<and> (\<exists>msg tok t0 t1. parse_json d m = Inr msg
     \<and> field msg ''token'' = JStr tok \<and> fst (auth_validate (net d) t0 t1 tok (w_auth w)))"

lemma prepare_accepted:
  assumes "prepare_config d t0 t1 msg w s = (Inr vad, w', s')" and "isAuthEnabled (w_auth w)"
  shows "\<exists>tok. field msg ''token'' = JStr tok \<and> fst (auth_validate (net d) t0 t1 tok (w_auth w))"
proof -
  obtain w1 where "auth_check d t0 t1 msg w = (None, w1)"
    using assms(1) by (auto simp: prepare_config_def Let_def split: prod.splits option.splits)
  from auth_check_None [OF this assms(2)] show ?thesis .
qed

text \<open>
  What a step of a session does on this way: the frames read are never forgotten; a session gets
  configured only out of \<open>loading\<close>, without reading; and it starts \<open>loading\<close> only by reading a
  config message that is accepted.
\<close>

definition way_step :: "deps \<Rightarrow> world \<Rightarrow> sess_sys \<Rightarrow> sess_sys \<Rightarrow> bool" where
  "way_step d w S S' \<longleftrightarrow> prefix (sys_read S) (sys_read S')
     \<and> (configured (sys_s S) \<longrightarrow> configured (sys_s S'))
     \<and> (configured (sys_s S') \<longrightarrow> configured (sys_s S) \<or> loading S \<and> sys_read S' = sys_read S)
     \<and> (loading S' \<longrightarrow> loading S \<and> sys_read S' = sys_read S
          \<or> (\<exists>m. sys_read S' = sys_read S @ [Text m] \<and> accepted_config d m w))"

lemma way_step_world [simp]: "way_step d w (S\<lparr>sys_w := w'\<rparr>) S' = way_step d w S S'"
  by (simp add: way_step_def)

lemma sys_step_way:
  assumes "sys_step d S S'" and "isAuthEnabled (w_auth (sys_w S))"
  shows "way_step d (sys_w S) S S'"
  using assms
proof (induction rule: sys_step.induct)
  case (reply S m t0 t1 x w s)
  then show ?case using reply_frame(3) [OF reply(5,3,4)] by (simp add: way_step_def loading_def)
next
  case (prepare S m msg t0 t1 r w s)
  have "accepted_config d m (sys_w S)" if "r = Inr v" for v
    using prepare_accepted [of d t0 t1 msg "sys_w S" "sys_s S" v w s] prepare that
    unfolding accepted_config_def by blast
  then show ?case using prepare_frame(4) [OF prepare(5)]
    by (auto simp: way_step_def loading_def split: sum.split option.split)
next
  case (load S vad r c)
  then show ?case by (simp add: way_step_def loading_def split: sum.split)
next
  case (install S vad cx now x s)
  then show ?case using install_frame(7) [OF install(4)] by (auto simp: way_step_def loading_def split: option.split)
next
  case (audio S now data r s)
  then show ?case using binary_guard_frame(1) [OF audio(3)] by (auto simp: way_step_def loading_def split: option.split)
next
  case (store S pcm now r s)
  then show ?case using store_audio_frame(1) [OF store(4)] by (simp add: way_step_def loading_def split: sum.split)
next
  case (collect S x s)
  then show ?case using end_collect_frame(1) [of d "sys_s S"] by (auto simp: way_step_def loading_def)
next
  case (give_back S now w s)
  then show ?case by (auto simp: way_step_def loading_def releaseModel_def split: if_splits)
next
  case (infer S n r l s)
  have "configured s = configured (sys_s S)"
    using infer(3) by (auto simp: flush_infer_def Let_def record_result_def split: option.splits prod.splits sum.splits if_splits)
  with infer show ?case by (simp add: way_step_def loading_def)
qed (auto simp: way_step_def loading_def close_ws_def)

text \<open>A session on the way was one before the step, too, and the step is its own or does not concern it.\<close>

lemma client_step_way:
  assumes "client_step d cfg i sh a sh' (Some (Serving ip S'))" and "configured (sys_s S') \<or> loading S'"
    and "isAuthEnabled (w_auth (sh_world sh))"
  shows "\<exists>S. a = Serving ip S \<and> way_step d (sh_world sh) S S'"
  using assms(1)
proof (cases rule: client_step.cases)
  case (session S)
  then show ?thesis using sys_step_way [OF session(3)] assms(3) by auto
qed (use assms(2) in \<open>auto simp: start_sys_def loading_def new_session_def\<close>)

lemma proc_step_way:
  assumes "proc_step D cfg P P'" and "p_clients P' i = Some (Serving ip S')" and "configured (sys_s S') \<or> loading S'"
    and "auth_of P"
  obtains (own) d S where "d \<in> D" "p_clients P i = Some (Serving ip S)" "way_step d (sh_world (p_shared P)) S S'"
  | (idle) S where "p_clients P i = Some (Serving ip S)" "sys_read S = sys_read S'" "loading S = loading S'"
      "configured (sys_s S) = configured (sys_s S')"
  using assms(1)
proof (cases rule: proc_step.cases)
  case (client j c d sh c')
  show thesis
  proof (cases "j = i")
    case True
    then show thesis using client client_step_way [of d cfg i "p_shared P" c sh ip S'] assms(2-4) own [of d]
      by (auto simp: auth_of_def)
  next
    case False
    then show thesis using client assms(2) idle by auto
  qed
next
  case (signal d)
  obtain S where S: "p_clients P i = Some (Serving ip S)" "S' = S\<lparr>sys_s := shutdownAll d (sh_tracker (p_shared P)) (\<lambda>_. sys_s S) i\<rparr>"
    using assms(2) signal(1) by (auto simp: cancel_clients_def split: option.splits client.splits)
  then show thesis by (intro idle [OF S(1)]) (simp_all add: loading_def shutdownAll_def shutdown_def)
qed (use assms(2) idle in \<open>auto simp: with_server_def split: if_splits\<close>)

text \<open>
  Client \<open>i\<close>, not configured yet, read a message that was accepted in the state \<open>Q\<close> before, as the last
  of the frames \<open>fs\<close>; and it got configured with this message as the last one.
\<close>

definition admitting :: "deps set \<Rightarrow> session_config \<Rightarrow> server_process \<Rightarrow> server_process \<Rightarrow> nat \<Rightarrow> string \<Rightarrow> frame list \<Rightarrow> bool" where
  "admitting D cfg P0 P i ip fs \<longleftrightarrow> (\<exists>d \<in> D. \<exists>Q Q' T T' m. proc_steps D cfg P0 Q
     \<and> p_clients Q i = Some (Serving ip T) \<and> \<not> configured (sys_s T) \<and> accepted_config d m (sh_world (p_shared Q))
     \<and> proc_step D cfg Q Q' \<and> p_clients Q' i = Some (Serving ip T') \<and> sys_read T' = sys_read T @ [Text m]
     \<and> proc_steps D cfg Q' P \<and> fs = sys_read T @ [Text m])"

definition admitted :: "deps set \<Rightarrow> session_config \<Rightarrow> server_process \<Rightarrow> server_process \<Rightarrow> nat \<Rightarrow> string \<Rightarrow> frame list \<Rightarrow> bool" where
  "admitted D cfg P0 P i ip fs \<longleftrightarrow> (\<exists>R R' U U'. admitting D cfg P0 R i ip (sys_read U)
     \<and> p_clients R i = Some (Serving ip U) \<and> \<not> configured (sys_s U)
     \<and> proc_step D cfg R R' \<and> p_clients R' i = Some (Serving ip U') \<and> configured (sys_s U')
     \<and> proc_steps D cfg R' P \<and> prefix (sys_read U) fs)"

lemma admitting_later: "admitting D cfg P0 P i ip fs \<Longrightarrow> proc_step D cfg P P' \<Longrightarrow> admitting D cfg P0 P' i ip fs"
  unfolding admitting_def by (meson rtranclp.rtrancl_into_rtrancl)

lemma admitted_later:
  "admitted D cfg P0 P i ip fs \<Longrightarrow> proc_step D cfg P P' \<Longrightarrow> prefix fs fs' \<Longrightarrow> admitted D cfg P0 P' i ip fs'"
  unfolding admitted_def by (meson rtranclp.rtrancl_into_rtrancl prefix_order.trans)

lemma reachable_admitted:
  assumes "proc_steps D cfg (boot_process c) P" and "auth_of (boot_process c)" and "p_clients P i = Some (Serving ip S)"
  shows "if configured (sys_s S) then admitted D cfg (boot_process c) P i ip (sys_read S)
    else loading S \<longrightarrow> admitting D cfg (boot_process c) P i ip (sys_read S)"
  using assms(1,3)
proof (induction arbitrary: S rule: rtranclp_induct)
  case base
  then show ?case by (simp add: boot_process_def)
next
  case (step P P')
  let ?P0 = "boot_process c"
  have on: "auth_of P" using auth_kept.steps_keep [OF step.hyps(1), of True] assms(2) by simp
  show ?case
  proof (cases "configured (sys_s S) \<or> loading S")
    case True
    from step.hyps(2) step.prems True on show ?thesis
    proof (cases rule: proc_step_way)
      case (idle T)
      then show ?thesis using step.IH [OF idle(1)] admitting_later [OF _ step.hyps(2)] admitted_later [OF _ step.hyps(2)]
        by (auto split: if_splits)
    next
      case (own d T)
      note w = own(3) [unfolded way_step_def]
      show ?thesis
      proof (cases "configured (sys_s T)")
        case True
        then show ?thesis using step.IH [OF own(2)] w admitted_later [OF _ step.hyps(2)] by auto
      next
        case nc: False
        show ?thesis
        proof (cases "configured (sys_s S)")
          case True
          then have "admitting D cfg ?P0 P i ip (sys_read T)" "sys_read S = sys_read T"
            using step.IH [OF own(2)] w nc by auto
          then show ?thesis using True nc own(2) step.hyps(2) step.prems unfolding admitted_def by auto
        next
          case False
          then consider "loading T" "sys_read S = sys_read T"
            | m where "sys_read S = sys_read T @ [Text m]" "accepted_config d m (sh_world (p_shared P))"
            using w \<open>configured (sys_s S) \<or> loading S\<close> by auto
          then show ?thesis
          proof cases
            case 1
            then show ?thesis using step.IH [OF own(2)] nc False admitting_later [OF _ step.hyps(2)] by auto
          next
            case (2 m)
            then have "admitting D cfg ?P0 P' i ip (sys_read S)"
              unfolding admitting_def using own(1,2) nc step.hyps step.prems by blast
            then show ?thesis using False by simp
          qed
        qed
      qed
    qed
  qed simp
qed

section \<open>Properties\<close>

text \<open>C7: With authentication on, in every interleaving of all clients, a session is configured (and only
  such a session has an engine and is sent transcriptions) only by a message its own client
  sent: in some state \<open>Q\<close>, with the session not configured, its receive loop read a config message
  with a token which the authentication manager, as it was at that moment, accepted; and when
  the session got configured, this message was still the last one it had read.\<close>

theorem configured_session_authenticated:
  assumes "proc_steps D cfg (boot_process c) P" and "isAuthEnabled (new_auth_manager (auth_config_of c))"
    and "p_clients P i = Some (Serving ip S)" and "configured (sys_s S)"
  shows "\<exists>d \<in> D. \<exists>Q Q' R R' T T' U U' m msg tok t0 t1 post.
    proc_steps D cfg (boot_process c) Q \<and> p_clients Q i = Some (Serving ip T) \<and> \<not> configured (sys_s T)
    \<and> is_config d (Text m) \<and> parse_json d m = Inr msg \<and> field msg ''token'' = JStr tok
    \<and> fst (auth_validate (net d) t0 t1 tok (w_auth (sh_world (p_shared Q))))
    \<and> proc_step D cfg Q Q' \<and> p_clients Q' i = Some (Serving ip T') \<and> sys_read T' = sys_read T @ [Text m]
    \<and> proc_steps D cfg Q' R \<and> p_clients R i = Some (Serving ip U) \<and> \<not> configured (sys_s U) \<and> sys_read U = sys_read T @ [Text m]
    \<and> proc_step D cfg R R' \<and> p_clients R' i = Some (Serving ip U') \<and> configured (sys_s U')
    \<and> proc_steps D cfg R' P \<and> sys_read S = sys_read T @ Text m # post"
proof -
  have "auth_of (boot_process c)" using assms(2) by (simp add: auth_of_def boot_process_def boot_world_def)
  then have "admitted D cfg (boot_process c) P i ip (sys_read S)"
    using reachable_admitted [OF assms(1) _ assms(3)] assms(4) by simp
  then obtain R R' U U' where R: "admitting D cfg (boot_process c) R i ip (sys_read U)"
    "p_clients R i = Some (Serving ip U)" "\<not> configured (sys_s U)" "proc_step D cfg R R'"
    "p_clients R' i = Some (Serving ip U')" "configured (sys_s U')" "proc_steps D cfg R' P" "prefix (sys_read U) (sys_read S)"
    unfolding admitted_def by blast
  from R(1) obtain d Q Q' T T' m where Q: "d \<in> D" "proc_steps D cfg (boot_process c) Q"
    "p_clients Q i = Some (Serving ip T)" "\<not> configured (sys_s T)" "accepted_config d m (sh_world (p_shared Q))"
    "proc_step D cfg Q Q'" "p_clients Q' i = Some (Serving ip T')" "sys_read T' = sys_read T @ [Text m]"
    "proc_steps D cfg Q' R" "sys_read U = sys_read T @ [Text m]" unfolding admitting_def by blast
  obtain post where post: "sys_read S = sys_read T @ Text m # post" using R(8) Q(10) by (auto simp: prefix_def)
  from Q(5) obtain msg tok t0 t1 where m: "is_config d (Text m)" "parse_json d m = Inr msg" "field msg ''token'' = JStr tok"
    "fst (auth_validate (net d) t0 t1 tok (w_auth (sh_world (p_shared Q))))" unfolding accepted_config_def by blast
  show ?thesis
    by (rule bexI [OF _ Q(1)], rule exI [of _ Q], rule exI [of _ Q'], rule exI [of _ R], rule exI [of _ R'],
        rule exI [of _ T], rule exI [of _ T'], rule exI [of _ U], rule exI [of _ U'], rule exI [of _ m],
        rule exI [of _ msg], rule exI [of _ tok], rule exI [of _ t0], rule exI [of _ t1], rule exI [of _ post])
      (intro conjI Q(2-4,6-10) m R(2-7) post)
qed

theorem configured_session_authenticated_witness:
  "\<exists>P S m msg tok post Q. proc_steps {demo_deps} (session_config_of token_config) (boot_process token_config) P
    \<and> p_clients P 0 = Some (Serving ''a'' S) \<and> sys_read S = Text m # post \<and> parse_json demo_deps m = Inr msg \<and> field msg ''token'' = JStr tok
    \<and> proc_steps {demo_deps} (session_config_of token_config) (boot_process token_config) Q
    \<and> (\<exists>t0 t1. fst (auth_validate (net demo_deps) t0 t1 tok (w_auth (sh_world (p_shared Q)))))"
proof -
  obtain S e where S: "(sys_step demo_deps)\<^sup>+\<^sup>+ (first_start token_config) S" "\<not> crashed S" "configured (sys_s S)"
    "sys_read S = [Text ''login'']"
    using first_login by blast
  have on: "isAuthEnabled (new_auth_manager (auth_config_of token_config))"
    by (simp add: isAuthEnabled_def new_auth_manager_def auth_config_of_def token_config_def)
  have "admits token_config" by (simp add: token_config_def)
  note reach = one_session_reached [OF S(1,2) this, of "{demo_deps}", OF singletonI]
  have cl: "p_clients (one_session token_config S) 0 = Some (Serving ''a'' S)" by (simp add: one_session_def)
  from configured_session_authenticated [OF reach on cl S(3)]
  obtain d Q and T :: sess_sys and m msg tok t0 t1 post where t: "d \<in> {demo_deps}"
    "proc_steps {demo_deps} (session_config_of token_config) (boot_process token_config) Q"
    "parse_json d m = Inr msg" "field msg ''token'' = JStr tok"
    "fst (auth_validate (net d) t0 t1 tok (w_auth (sh_world (p_shared Q))))" "sys_read S = sys_read T @ Text m # post"
    by (elim bexE exE conjE) (rule that)
  from t(6) S(4) have "sys_read T = []" by (cases "sys_read T") auto
  with t(6) have "sys_read S = Text m # post" by simp
  with t(1-5) cl reach show ?thesis by blast
qed

end
