(* ===== verification/Spec2Isabelle.thy ===== *)
theory Spec2Isabelle
  imports Server_Properties Server_Auth Logging
begin

text \<open>
  A verification of the real-time transcription server under \<open>src/src/\<close>: clients connect by
  WebSocket, send a \<open>config\<close> message and then 32-bit float audio, and receive partial and
  final transcriptions that \<open>whisper.cpp\<close> makes from a sliding window of the audio.

  \<^bold>\<open>The parts and their theories.\<close>

  \<^item> \<open>Prelude\<close>: exceptions and outcomes, strings and the number conversions of the C++ library.
  \<^item> \<open>Float32\<close>: binary32 numbers with NaN, infinities and subnormal numbers. A finite number is
    its rational value, an operation the exact result rounded to nearest even.
  \<^item> \<open>Audio\<close>: \<open>utils/AudioPreprocessor.h\<close>, the high-pass filter and the normalisation.
  \<^item> \<open>Hallucination\<close>: \<open>utils/HallucinationGuard.h\<close>, with a reference for its loop.
  \<^item> \<open>Slots\<close>: the contract of a bounded pool of slots, in total or per key as well.
  \<^item> \<open>Inference_Limiter\<close>: \<open>whisper/InferenceLimiter.h\<close> and the threads that wait in it.
  \<^item> \<open>Model_Cache\<close>: \<open>whisper/ModelCache.h\<close>, its references, timers and unloading.
  \<^item> \<open>Engine\<close>: \<open>whisper/StreamingWhisperEngine.cpp\<close>, the audio buffer of a session and the commit
    of finished segments.
  \<^item> \<open>Json\<close>, \<open>Logging\<close>: the accessors of JSON values, and \<open>log/Log.h\<close>.
  \<^item> \<open>Auth\<close>: \<open>auth/\<close> and \<open>server/AuthManager.cpp\<close>, from the token to the decision.
  \<^item> \<open>Connection_Limiter\<close>: \<open>server/ConnectionLimiter.cpp\<close> and \<open>ConnectionGuard\<close>.
  \<^item> \<open>Session\<close>, \<open>Session_Safety\<close>: the receive loop of \<open>server/StreamingSession.h\<close> with its
    handlers, and what holds of it.
  \<^item> \<open>Session_Flush\<close>: \<open>flushLoop\<close> of the same file, one turn of it.
  \<^item> \<open>Session_Threads\<close>: the two threads of a session interleaved, from the WebSocket handshake to
    the destructor, as a step relation at the granularity of \<open>state_mutex_\<close>.
  \<^item> \<open>Session_Protocol\<close>: what a client is sent over all these interleavings.
  \<^item> \<open>Config\<close>: \<open>server/ServerConfig.h\<close> and the readers of file, environment and arguments in
    \<open>server.cpp\<close>.
  \<^item> \<open>Server\<close>: the rest of \<open>server.cpp\<close>, piece by piece: the start of \<open>main\<close>, the HTTP routes, a
    turn of the accept loop, the shutdown; and \<open>server/SessionTracker.h\<close>.
  \<^item> \<open>Server_Process\<close>: the pieces composed. The process is a step relation (\<open>proc_step\<close>) of \<open>main\<close>,
    a thread \<open>handleSession\<close> for every client (\<open>client_step\<close>), both threads of every session
    (\<open>sys_step\<close>), the signal handler, the timers of the model cache and its destructor on the
    way out; its invariant.
  \<^item> \<open>Server_Runs\<close>: executions of the process, up to a first configured session.
  \<^item> \<open>Server_Auth\<close>: authentication in every state the process can reach.
  \<^item> \<open>Server_Properties\<close>: what else holds in every state the process can reach from \<open>boot_process\<close>.

  \<^bold>\<open>How state and operations correspond.\<close> A class is a record with the fields of the class
  (\<open>engine\<close>, \<open>session\<close>, \<open>model_cache\<close>, \<open>inference_limiter\<close>, \<open>connection_limiter\<close>,
  \<open>auth_manager\<close>), a method a function with the method's name that returns the new record, a
  singleton a field of \<open>world\<close>. What may throw returns \<open>exn + 'a\<close>, or the exception beside the
  state where the state has changed before it. A method that holds a mutex for its whole body
  is one step. Clock readings are arguments, in milliseconds. The libraries are parameters:
  the decoder (\<open>whisper\<close>), the loading of a model and the making of a decoder state, the JSON
  parser and printer, and name resolution and one HTTP exchange of the validation service
  (\<open>network\<close>), whether cancelling a socket ends a blocking operation (\<open>cancel_blocking\<close>), and where
  memory runs out for incoming audio (\<open>audio_fault\<close>). They are collected in \<open>deps\<close>. In the process
  every step may find other answers, out of any set \<open>D\<close>, so a decoder, a file or a service may
  change its mind; the theorems about one session or one component take functions that answer
  the same throughout.

  \<^bold>\<open>What is assumed of the libraries.\<close> Of the theorems over all behaviours only one assumes
  something of them: the one on the messages a client is sent (\<open>messages_follow_protocol\<close>) needs
  that a greeting can be printed whose language is the default or came out of a parsed message
  (\<open>greeting_prints\<close>). \<open>dump()\<close> throws on text that is not UTF-8 (\<open>can_dump\<close>, and such a message is
  not sent), but \<open>parse()\<close> refuses such text. A theorem about a particular execution names the
  answers this execution needs: that a model can be loaded, that the decoder fails, that two
  messages can be printed, what a message of the client parses to, what the service answers.

  \<^bold>\<open>History.\<close> \<open>sys_read\<close> is the one field of a state that the code does not have: the frames the
  receive loop of a session has read. No step depends on it.

  \<^bold>\<open>Interfaces.\<close> \<open>slot_pool\<close> and \<open>keyed_pool\<close> (\<open>Slots\<close>) are interpreted by the two limiters,
  \<open>ttl_cache\<close> (\<open>Auth\<close>) by the authentication cache, \<open>resource_cache\<close> (\<open>Model_Cache\<close>) by the model
  cache, \<open>sample_buffer\<close> (\<open>Engine\<close>) by the engine, \<open>rounding\<close> (\<open>Float32\<close>) by rounding to binary32,
  and \<open>step_invariant\<close> (\<open>Prelude\<close>) by the calls of an engine, the threads of a session and the
  process with their invariants.

  \<^bold>\<open>Integers and bounds.\<close> \<open>last_transcribed_size_\<close> is a 64-bit word, since the code subtracts it
  and may wrap around; the byte counter of the rate limit is taken modulo \<open>2^64\<close> and the port
  modulo \<open>2^16\<close>. Buffer sizes, counters and times stay far from their limits and are natural
  numbers and integers. All functions terminate; no fuel is used. Waiting for a slot is the
  value \<open>None\<close> of \<open>inf_acquire\<close>, resolved by the steps of \<open>lim_step\<close>.

  \<^bold>\<open>What the lemmas show.\<close> Over all interleavings of the process: the model is never freed
  while a session has an engine, except by a forced exit of the process, the limiters count exactly what they limit, the routes for
  monitoring show these counts, only a token that was accepted when the session read it configures a session, and a client is
  sent messages of the protocol only. The threads of a session end and are joined. For the components: the limiters lose no wake-up; an idle
  model is unloaded; the engine keeps its bounds, loses no decoded text and keeps the overlap of
  its window; tokens are accepted only on a recent answer of the service; transcripts only grow.
  Several theorems state what the code does where its comments say otherwise: references leaked by a second \<open>config\<close>, a stale timer, a NaN
  that stays in the filter, a size that wraps around, a failure that ends the process, a session
  that the shutdown misses, a forced exit that frees the model in use, decodes beside the limit, log lines that a client can forge.

  \<^bold>\<open>What is not modelled.\<close> Sockets and TLS (a connection is open or not, and its link works or
  not; loading the certificate and binding the address succeed or not). Real time in the process:
  any step can come next, the deadline of the watchdog is \<open>shutdown_outcome\<close>. What threads do
  after the static objects are destroyed, which is undefined: the process stops at \<open>Ended\<close>. Memory
  that runs out anywhere but in the handling of incoming audio, the one place that catches it
  and goes on. The three values of
  \<open>/metrics\<close> are read in one step, though under three mutexes, and the validation of a token is one
  step, though others may use the cache during its exchange with the service. The lifetime of the
  decoder state of an engine (\<open>isReady\<close>, which is always true after the constructor, and the destructor). The
  log is not part of the state; its calls are modelled where their text depends on a client
  (\<open>json_log\<close>) and for the configuration (\<open>config_log\<close>). The data race on the random generator of
  \<open>generateSessionId\<close> and concurrent calls on one WebSocket stream are outside the model.
\<close>

section \<open>The server as a whole\<close>

text \<open>C1: Whatever the clients of all sessions send, however the client threads, receive loops, flush
  threads and unload timers interleave, and however sessions end, a session that has an engine
  is configured, its engine is within bounds, the reference count covers all references that
  are held, and the model it decodes with is the one loaded and has not been freed, with one
  exception: when the watchdog forces the exit of the process, the destructor of the cache frees
  the model under every session that still has an engine.\<close>

theorem no_session_decodes_on_freed_model:
  assumes "proc_steps D (session_config_of c) (boot_process c) P"
    and "p_clients P i = Some (Serving ip S)" and "s_engine (sys_s S) = Some e"
    and "k = w_cache (sh_world (p_shared P))"
  shows "configured (sys_s S) \<and> engine_ok e
    \<and> (if p_main P = Ended Forced then ctx k = None \<and> eng_ctx e \<in> set (freed k)
       else ctx k = Some (eng_ctx e) \<and> eng_ctx e \<notin> set (freed k))
    \<and> 0 < refCount k \<and> int (total_of client_refs (p_clients P)) \<le> refCount k"
proof -
  let ?w = "sh_world (p_shared P)"
  obtain k0 where sh: "shared_ok c (?w\<lparr>w_cache := k0\<rparr>) (p_clients P)"
    and k: "k = (if ended P then cache_destroy k0 else k0)"
    and gr: "p_main P \<in> {Exiting Graceful, Ended Graceful} \<longrightarrow> p_clients P = (\<lambda>_. None)"
    using reachable_inv [OF assms(1)] assms(4) by (auto simp: proc_inv_def Let_def)
  have "client_ok (sc_model_path c) (?w\<lparr>w_cache := k0\<rparr>) (Serving ip S)" using sh assms(2) by (auto simp: shared_ok_def)
  then have inv: "sys_inv (S\<lparr>sys_w := ?w\<lparr>w_cache := k0\<rparr>\<rparr>)" by (simp add: client_ok_def)
  then have "\<not> wound_up (reader S)" using assms(3) by (auto simp: sys_inv_def)
  then have "sess_inv (?w\<lparr>w_cache := k0\<rparr>) (sys_s S)" using sys_inv_sess [OF inv] by simp
  then have s: "configured (sys_s S)" "engine_ok e" "ctx k0 = Some (eng_ctx e)" "0 < ref_count k0" "eng_ctx e \<notin> set (freed k0)"
    using assms(3) by (auto simp: sess_inv_def cache_ok_def)
  have "p_main P = Ended Forced \<longleftrightarrow> ended P" using gr assms(2) by (auto simp: ended_def)
  moreover have "int (total_of client_refs (p_clients P)) \<le> ref_count k0" using sh by (simp add: shared_ok_def)
  ultimately show ?thesis using s by (simp add: k refCount_def cache_destroy_def cancelUnloadLocked_def)
qed

theorem no_session_decodes_on_freed_model_witness:
  "\<exists>P Q S (e :: engine). proc_steps {demo_deps} (session_config_of default_config) (boot_process default_config) P
    \<and> p_clients P 0 = Some (Serving ''a'' S) \<and> s_engine (sys_s S) = Some e
    \<and> ctx (w_cache (sh_world (p_shared P))) = Some (eng_ctx e) \<and> eng_ctx e \<notin> set (freed (w_cache (sh_world (p_shared P))))
    \<and> proc_steps {demo_deps} (session_config_of default_config) P Q \<and> p_clients Q 0 = p_clients P 0
    \<and> eng_ctx e \<in> set (freed (w_cache (sh_world (p_shared Q))))"
proof -
  let ?cfg = "session_config_of default_config"
  obtain S e where S: "(sys_step demo_deps)\<^sup>+\<^sup>+ (first_start default_config) S" "\<not> crashed S" "s_engine (sys_s S) = Some e"
    using first_config by blast
  let ?P = "one_session default_config S"
  note reach = one_session_reached [OF S(1,2) admits_default(1) singletonI]
  have P: "p_clients ?P 0 = Some (Serving ''a'' S)" by (simp add: one_session_def)
  have live: "ctx (w_cache (sh_world (p_shared ?P))) = Some (eng_ctx e) \<and> eng_ctx e \<notin> set (freed (w_cache (sh_world (p_shared ?P))))"
    using no_session_decodes_on_freed_model [OF reach P S(3) refl] by (simp add: one_session_def boot_process_def)
  have "running ?P" using S(2) by (auto simp: one_session_def boot_process_def running_def)
  moreover have "p_main ?P = Testing" "p_open ?P" by (simp_all add: one_session_def boot_process_def)
  moreover have "\<not> cancel_blocking demo_deps" by (simp add: demo_deps_def)
  ultimately obtain Q where Q: "proc_steps {demo_deps} ?cfg ?P Q" "p_clients Q 0 = p_clients ?P 0" "p_main Q = Ended Forced"
    using forced_exit_reached [of ?P demo_deps "{demo_deps}" ?cfg] by fastforce
  have "eng_ctx e \<in> set (freed (w_cache (sh_world (p_shared Q))))"
    using no_session_decodes_on_freed_model [OF rtranclp_trans [OF reach Q(1)] _ S(3) refl, of 0 "''a''"] P Q(2,3) by simp
  with reach P S(3) live Q(1,2) show ?thesis by blast
qed

end
